theory Spec2Isabelle
  imports Complex_Main "HOL-Library.Sublist"
begin

section \<open>Python strings\<close>

text \<open>
  A Python \<open>str\<close> is a sequence of Unicode code points.  The model takes a \<open>char\<close> to be
  one code point below 256 (the Latin-1 range), which covers every literal of the sources
  (\<open>CHR 0xE9\<close> is e-acute, \<open>CHR 0xFB\<close> u-circumflex, \<open>CHR 0xF9\<close> u-grave, \<open>CHR 0xC9\<close>
  capital E-acute); \<open>length\<close> then counts code points as \<open>len\<close> does.  Text with code
  points from 256 on is outside the model.
\<close>

definition is_space :: "char \<Rightarrow> bool" where
  \<comment> \<open>\<open>str.isspace\<close> on one code point below 256; \<open>split()\<close> and \<open>strip()\<close> use it\<close>
  "is_space c = (of_char c \<in> {9, 10, 11, 12, 13, 28, 29, 30, 31, 32, 133, 160 :: nat})"

definition lower_char :: "char \<Rightarrow> char" where
  \<comment> \<open>\<open>str.lower\<close> on one code point below 256: A-Z and 0xC0-0xDE except the
      multiplication sign 0xD7 move up by 32\<close>
  "lower_char c =
     (let n = (of_char c :: nat)
      in if (65 \<le> n \<and> n \<le> 90) \<or> (192 \<le> n \<and> n \<le> 222 \<and> n \<noteq> 215)
         then char_of (n + 32) else c)"

definition lower :: "string \<Rightarrow> string" where
  "lower s = map lower_char s"

fun startswith :: "string \<Rightarrow> string \<Rightarrow> bool" where
  \<comment> \<open>\<open>s.startswith(p)\<close>\<close>
  "startswith s [] = True"
| "startswith [] (p # ps) = False"
| "startswith (c # cs) (p # ps) = (c = p \<and> startswith cs ps)"

fun str_contains :: "string \<Rightarrow> string \<Rightarrow> bool" where
  \<comment> \<open>\<open>p in s\<close>: \<open>p\<close> occurs in \<open>s\<close> as a contiguous substring\<close>
  "str_contains [] p = (p = [])"
| "str_contains (c # cs) p = (startswith (c # cs) p \<or> str_contains cs p)"

fun split_acc :: "string \<Rightarrow> string \<Rightarrow> string list" where
  "split_acc cur [] = (if cur = [] then [] else [cur])"
| "split_acc cur (c # cs) =
     (if is_space c then (if cur = [] then split_acc [] cs else cur # split_acc [] cs)
      else split_acc (cur @ [c]) cs)"

definition split :: "string \<Rightarrow> string list" where
  \<comment> \<open>\<open>s.split()\<close>: the maximal runs of non-whitespace, in order\<close>
  "split s = split_acc [] s"

definition strip :: "string \<Rightarrow> string" where
  \<comment> \<open>\<open>s.strip()\<close>\<close>
  "strip s = rev (dropWhile is_space (rev (dropWhile is_space s)))"

definition count_char :: "string \<Rightarrow> char \<Rightarrow> nat" where
  \<comment> \<open>\<open>s.count(c)\<close> for a one-character \<open>c\<close>\<close>
  "count_char s c = length (filter (\<lambda>x. x = c) s)"

fun re_split_acc :: "string list \<Rightarrow> nat \<Rightarrow> string \<Rightarrow> string \<Rightarrow> string list" where
  \<comment> \<open>\<open>re.split\<close> on an alternation of non-empty literals: scan from the left; where
      an alternative matches (the first one in the pattern's order), close the current
      part and skip the match (\<open>skip\<close> counts the characters of it still to pass)\<close>
  "re_split_acc alts skip cur [] = [cur]"
| "re_split_acc alts (Suc k) cur (c # cs) = re_split_acc alts k cur cs"
| "re_split_acc alts 0 cur (c # cs) =
     (case find (startswith (c # cs)) alts of
        Some a \<Rightarrow> cur # re_split_acc alts (length a - 1) [] cs
      | None \<Rightarrow> re_split_acc alts 0 (cur @ [c]) cs)"

definition re_split :: "string list \<Rightarrow> string \<Rightarrow> string list" where
  "re_split alts s = re_split_acc alts 0 [] s"

definition re_search_ci :: "string list \<Rightarrow> string \<Rightarrow> bool" where
  \<comment> \<open>\<open>re.compile("(a|b|...)", re.I).search(s)\<close> for lower-case literals: below code
      point 256 a character matches ignoring case exactly when its lower-case form is
      the pattern's character\<close>
  "re_search_ci alts s = list_ex (str_contains (lower s)) alts"

section \<open>SearchPlanner (agent_orchestrator.py)\<close>

definition comparison_pattern :: "string list" where
  "comparison_pattern =
     [''comparer'', ''comparaison'', ''vs'', ''versus'', ''diff'' @ [CHR 0xE9] @ ''rence'']"

definition multi_aspect_pattern :: "string list" where
  "multi_aspect_pattern =
     [''et'', ''ainsi que'', [CHR 0xE9] @ ''galement'', ''plus'', ''comment'', ''pourquoi'',
      ''quand'', ''o'' @ [CHR 0xF9]]"

definition temporal_pattern :: "string list" where
  "temporal_pattern =
     [''aujourd'hui'', ''hier'', ''demain'', ''cette ann'' @ [CHR 0xE9] @ ''e'', ''dernier'',
      ''prochain'', ''r'' @ [CHR 0xE9] @ ''cemment'']"

definition quantitative_pattern :: "string list" where
  "quantitative_pattern =
     [''prix'', ''co'' @ [CHR 0xFB] @ ''t'', ''valeur'', ''montant'', ''chiffre'',
      ''statistique'', ''pourcentage'']"

definition complexity_patterns :: "string list list" where
  "complexity_patterns =
     [comparison_pattern, multi_aspect_pattern, temporal_pattern, quantitative_pattern]"

definition web_indicators :: "string list" where
  "web_indicators =
     [''aujourd'hui'', ''actuellement'', ''r'' @ [CHR 0xE9] @ ''cemment'', ''dernier'',
      ''nouveau'', ''prix'', ''co'' @ [CHR 0xFB] @ ''t'', ''valeur'', ''statistique'',
      ''actualit'' @ [CHR 0xE9], ''news'', ''m'' @ [CHR 0xE9] @ ''t'' @ [CHR 0xE9] @ ''o'',
      ''temp'' @ [CHR 0xE9] @ ''rature'', ''pr'' @ [CHR 0xE9] @ ''vision'', ''cours'',
      ''bourse'', ''site web'', ''internet'', ''online'', ''disponible'']"

definition needs_web_search :: "string \<Rightarrow> bool" where
  "needs_web_search question = list_ex (str_contains (lower question)) web_indicators"

definition assess_complexity :: "string \<Rightarrow> int" where
  "assess_complexity question =
     (let c0 = (if length (split question) > 15 then 2 else 0);
          c1 = c0 + 2 * int (length (filter (\<lambda>p. re_search_ci p question) complexity_patterns));
          c2 = (if count_char question (CHR ''?'') > 1
                   \<or> list_ex (str_contains (lower question)) [''et'', ''ou'', ''mais'']
                then c1 + 3 else c1)
      in min 10 c2)"

definition connectors :: "string list" where
  "connectors = [''et'', ''ou'', ''mais'', ''ainsi que'', [CHR 0xE9] @ ''galement'']"

definition break_down_question :: "string \<Rightarrow> string list" where
  "break_down_question question =
     (if length (split question) > 20
      then (let parts = re_split connectors question
            in if length parts > 1
               then map (\<lambda>part. strip part @ ''?'') (filter (\<lambda>part. strip part \<noteq> []) parts)
               else [question])
      else [question])"

record analysis =
  needs_web :: bool
  complexity :: int
  sub_questions :: "string list"
  search_strategy :: string
  estimated_searches :: nat

definition analyze_question :: "string \<Rightarrow> analysis" where
  "analyze_question question =
     (let a = \<lparr>needs_web = needs_web_search question,
               complexity = assess_complexity question,
               sub_questions = break_down_question question,
               search_strategy = ''single'',
               estimated_searches = 1\<rparr>
      in if length (sub_questions a) > 1
         then (if complexity a > 7 then a\<lparr>search_strategy := ''sequential''\<rparr>
               else a\<lparr>search_strategy := ''parallel''\<rparr>)
              \<lparr>estimated_searches := length (sub_questions a)\<rparr>
         else a)"

subsection \<open>Example questions\<close>

definition question_bitcoin_en :: string where
  "question_bitcoin_en = ''What is the Bitcoin price today?''"

definition question_bitcoin_fr :: string where
  \<comment> \<open>the first test question of the module's own self-test\<close>
  "question_bitcoin_fr = ''Quel est le prix du Bitcoin aujourd'hui?''"

definition question_two_parts :: string where
  \<comment> \<open>23 words around one connector\<close>
  "question_two_parts =
     ''quel est le niveau du bitcoin et quel est le niveau du gaz sur le site de la banque de paris ce matin''"

definition question_connectors_only :: string where
  \<comment> \<open>21 words, each of them the connector \<open>et\<close>\<close>
  "question_connectors_only =
     ''et et et et et et et et et et et et et et et et et et et et et''"

section \<open>Responses (the dictionaries the pipeline and the agent return)\<close>

text \<open>
  A response is a Python dictionary; a key that some responses lack is an \<open>option\<close>
  field (\<open>None\<close>: the key is absent).  \<open>processing_time\<close> is
  \<open>timedelta.total_seconds()\<close>, kept here as the exact number of seconds.
\<close>

datatype exn =
  OverflowError \<comment> \<open>raised by \<open>timedelta(hours=...)\<close> and by a \<open>datetime\<close> subtraction\<close>
| Raised string \<comment> \<open>any other exception, with its \<open>str()\<close>\<close>

record source_entry =
  src_url :: string
  src_type :: string
  src_title :: string

record sub_response =
  sub_question :: string
  sub_answer :: string
  sub_sources :: "source_entry list"

record step_response =
  step :: nat
  step_question :: string
  enriched_question :: string
  step_answer :: string
  step_sources :: "source_entry list"

record response =
  answer :: string
  sources :: "source_entry list option"
  error :: "exn option" \<comment> \<open>the exception whose \<open>str()\<close> the source stores\<close>
  context_chunks :: "nat option"
  context_length :: "nat option"
  search_queries :: "string list option"
  web_sources :: "string list option"
  local_sources :: "nat option"
  processing_time :: "real option"
  strategy :: "string option"
  sub_questions_count :: "nat option"
  sub_responses :: "sub_response list option"
  sequential_steps :: "step_response list option"

definition get_or :: "'a option \<Rightarrow> 'a \<Rightarrow> 'a" where
  \<comment> \<open>\<open>d.get(key, default)\<close>\<close>
  "get_or v d = (case v of None \<Rightarrow> d | Some x \<Rightarrow> x)"

section \<open>ConversationMemory (extended_rag_pipeline.py)\<close>

text \<open>
  A \<open>datetime\<close> is the number of microseconds between 1970-01-01 00:00 and it (an
  \<open>int\<close>), from \<open>datetime.min\<close> (year 1) to \<open>datetime.max\<close> (the end of year 9999).
  \<open>timedelta(hours=h)\<close> for an integer \<open>h\<close> is exact, and raises \<open>OverflowError\<close> when
  it is longer than 999999999 days either way; a subtraction that leaves the range of
  \<open>datetime\<close> raises \<open>OverflowError\<close> too.  Each call of \<open>datetime.now()\<close> in the
  source is a time parameter of the model.
\<close>

definition hours_delta :: "int \<Rightarrow> int" where
  \<comment> \<open>\<open>h\<close> hours in microseconds\<close>
  "hours_delta h = h * 3600000000"

definition datetime_min :: int where
  "datetime_min = - 62135596800000000"

definition datetime_max :: int where
  "datetime_max = 253402300799999999"

definition timedelta_hours :: "int \<Rightarrow> exn + int" where
  \<comment> \<open>\<open>timedelta(hours=h)\<close>: its whole days are \<open>h div 24\<close>, rounded down\<close>
  "timedelta_hours h =
     (if - 999999999 \<le> h div 24 \<and> h div 24 \<le> 999999999 then Inr (hours_delta h)
      else Inl OverflowError)"

definition datetime_minus :: "int \<Rightarrow> int \<Rightarrow> exn + int" where
  \<comment> \<open>\<open>a datetime - a timedelta\<close>\<close>
  "datetime_minus t d =
     (if datetime_min \<le> t - d \<and> t - d \<le> datetime_max then Inr (t - d)
      else Inl OverflowError)"

definition cutoff_before :: "int \<Rightarrow> int \<Rightarrow> exn + int" where
  \<comment> \<open>\<open>datetime.now() - timedelta(hours=hours)\<close>\<close>
  "cutoff_before now hours =
     (case timedelta_hours hours of
        Inl e \<Rightarrow> Inl e
      | Inr d \<Rightarrow> datetime_minus now d)"

record interaction =
  i_timestamp :: int
  i_question :: string
  i_response :: response
  i_search_queries :: "string list"
  i_web_sources :: "string list"

record conversation_memory =
  max_memory :: int
  ttl_hours :: int
  interactions :: "interaction list"

definition init_memory :: "int \<Rightarrow> int \<Rightarrow> conversation_memory" where
  \<comment> \<open>\<open>ConversationMemory(max_memory, ttl_hours)\<close>; the defaults are 10 and 24\<close>
  "init_memory mm ttl = \<lparr>max_memory = mm, ttl_hours = ttl, interactions = []\<rparr>"

definition cleanup_expired ::
  "int \<Rightarrow> conversation_memory \<Rightarrow> (exn + unit) \<times> conversation_memory" where
  \<comment> \<open>the result and the memory it leaves; when the cutoff cannot be computed the
      list stays as it is\<close>
  "cleanup_expired now m =
     (case cutoff_before now (ttl_hours m) of
        Inl e \<Rightarrow> (Inl e, m)
      | Inr cutoff \<Rightarrow>
          (Inr (), m\<lparr>interactions := filter (\<lambda>i. i_timestamp i > cutoff) (interactions m)\<rparr>))"

definition new_interaction :: "string \<Rightarrow> response \<Rightarrow> int \<Rightarrow> interaction" where
  \<comment> \<open>the dictionary that \<open>add_interaction\<close> builds, at clock \<open>t_stamp\<close>\<close>
  "new_interaction q resp t_stamp =
     \<lparr>i_timestamp = t_stamp, i_question = q, i_response = resp,
      i_search_queries = get_or (search_queries resp) [],
      i_web_sources = get_or (web_sources resp) []\<rparr>"

definition add_interaction ::
  "string \<Rightarrow> response \<Rightarrow> int \<Rightarrow> int \<Rightarrow> conversation_memory
    \<Rightarrow> (exn + unit) \<times> conversation_memory" where
  \<comment> \<open>\<open>t_stamp\<close>: the clock when the interaction is built; \<open>t_clean\<close>: the clock
      inside \<open>_cleanup_expired\<close>.  \<open>pop(0)\<close> is \<open>tl\<close>: the list was just extended.
      An exception of \<open>_cleanup_expired\<close> comes after the append and the pop\<close>
  "add_interaction q resp t_stamp t_clean m =
     (let xs = interactions m @ [new_interaction q resp t_stamp];
          xs' = (if int (length xs) > max_memory m then tl xs else xs)
      in cleanup_expired t_clean (m\<lparr>interactions := xs'\<rparr>))"

definition get_recent_context ::
  "int \<Rightarrow> int \<Rightarrow> conversation_memory \<Rightarrow> exn + interaction list" where
  \<comment> \<open>\<open>recent[-5:]\<close> is the last five entries, or all of them when there are fewer\<close>
  "get_recent_context hours now m =
     (case cutoff_before now hours of
        Inl e \<Rightarrow> Inl e
      | Inr cutoff \<Rightarrow>
          (let recent = filter (\<lambda>i. i_timestamp i > cutoff) (interactions m)
           in Inr (drop (length recent - 5) recent)))"

definition similar_queries :: "string \<Rightarrow> string \<Rightarrow> bool" where
  \<comment> \<open>the quotient of two list lengths is compared with 0.7 exactly: the float quotient
      of two integers below \<open>2^50\<close> exceeds the float 0.7 exactly when the fraction
      exceeds 7/10\<close>
  "similar_queries query1 query2 =
     (let words1 = remdups (split (lower query1));
          words2 = remdups (split (lower query2));
          intersection = filter (\<lambda>w. w \<in> set words2) words1;
          union = remdups (words1 @ words2)
      in if union = [] then False
         else 10 * length intersection > 7 * length union)"

definition is_recently_searched ::
  "string \<Rightarrow> int \<Rightarrow> int \<Rightarrow> conversation_memory \<Rightarrow> exn + bool" where
  "is_recently_searched query hours now m =
     (case cutoff_before now hours of
        Inl e \<Rightarrow> Inl e
      | Inr cutoff \<Rightarrow>
          Inr (list_ex (\<lambda>i. i_timestamp i > cutoff
                           \<and> list_ex (similar_queries query) (i_search_queries i))
                 (interactions m)))"

datatype memory_op =
  Record string response int int
| RecentContext int int
| RecentlySearched string int int

fun apply_memory_op :: "conversation_memory \<Rightarrow> memory_op \<Rightarrow> conversation_memory" where
  \<comment> \<open>the memory after one operation, whether it returned or raised; the two lookups
      leave the memory as it is\<close>
  "apply_memory_op m (Record q resp t_stamp t_clean) =
     snd (add_interaction q resp t_stamp t_clean m)"
| "apply_memory_op m (RecentContext hours now) = m"
| "apply_memory_op m (RecentlySearched query hours now) = m"

definition run_memory_ops :: "conversation_memory \<Rightarrow> memory_op list \<Rightarrow> conversation_memory" where
  "run_memory_ops m ops = foldl apply_memory_op m ops"

definition plain_response :: "string \<Rightarrow> response" where
  \<comment> \<open>a response with an answer and no other key\<close>
  "plain_response a =
     \<lparr>answer = a, sources = None, error = None, context_chunks = None,
      context_length = None, search_queries = None, web_sources = None,
      local_sources = None, processing_time = None, strategy = None,
      sub_questions_count = None, sub_responses = None, sequential_steps = None\<rparr>"

section \<open>Result fusion (extended_rag_pipeline.py)\<close>

record chunk =
  chunk_text :: "string option"
  chunk_source :: "string option"
  source_type :: "string option"
  relevance_score :: "real option"
  chunk_title :: "string option"
  chunk_url :: "string option"

definition calculate_relevance_score :: "(chunk \<Rightarrow> real) \<Rightarrow> chunk \<Rightarrow> real" where
  \<comment> \<open>\<open>raw r\<close> is the float the source has accumulated for \<open>r\<close> before the last line
      (base 0.5, recency and local bonus, length penalty or bonus, read off the clock
      and rounded as floats are); the last line clamps it, and clamping is exact\<close>
  "calculate_relevance_score raw r = max 0 (min 1 (raw r))"

definition score_key :: "chunk \<Rightarrow> real" where
  \<comment> \<open>the sort key \<open>x["relevance_score"]\<close>; every chunk sorted has the key, set just
      before\<close>
  "score_key x = get_or (relevance_score x) 0"

definition type_of_chunk :: "chunk \<Rightarrow> string" where
  \<comment> \<open>\<open>result.get("source_type", "unknown")\<close>\<close>
  "type_of_chunk r = get_or (source_type r) ''unknown''"

fun diversify_loop :: "(string \<rightharpoonup> nat) \<Rightarrow> int \<Rightarrow> chunk list \<Rightarrow> chunk list" where
  "diversify_loop source_counts max_per_source [] = []"
| "diversify_loop source_counts max_per_source (r # rs) =
     (let st = type_of_chunk r; c = get_or (source_counts st) 0
      in if int c < max_per_source
         then r # diversify_loop (source_counts(st \<mapsto> c + 1)) max_per_source rs
         else diversify_loop source_counts max_per_source rs)"

definition diversify_sources :: "chunk list \<Rightarrow> int \<Rightarrow> chunk list" where
  "diversify_sources results max_per_source = diversify_loop Map.empty max_per_source results"

definition score_results :: "(chunk \<Rightarrow> real) \<Rightarrow> chunk list \<Rightarrow> chunk list" where
  \<comment> \<open>the loop that stores each chunk's score in the chunk\<close>
  "score_results raw results =
     map (\<lambda>r. r\<lparr>relevance_score := Some (calculate_relevance_score raw r)\<rparr>) results"

definition fuse_results :: "(chunk \<Rightarrow> real) \<Rightarrow> chunk list \<Rightarrow> chunk list \<Rightarrow> chunk list" where
  \<comment> \<open>\<open>sorted(..., reverse=True)\<close> is a stable sort by descending key\<close>
  "fuse_results raw local_results web_results =
     (let all_results = local_results @ web_results;
          scored = score_results raw all_results;
          sorted_results = sort_key (\<lambda>x. - score_key x) scored;
          diversified = diversify_sources sorted_results 3
      in take 10 diversified)"

section \<open>CircuitBreaker and WebSearchEngine (web_search.py)\<close>

text \<open>
  \<open>time.time()\<close> is a real number of seconds, and each reading of it is a parameter of
  the model; the difference of two readings is taken exactly.  The provider
  (\<open>DDGS().text\<close>) is an oracle: the outcome of its \<open>n\<close>-th call.  The world counts the
  provider's calls and logs what \<open>time.sleep\<close> was asked to wait.
\<close>

datatype last_exception =
  NoException
| LastTimeout
| LastConnectionError
| LastHTTP "int option"
| LastOther string

datatype search_error =
  CircuitOpen \<comment> \<open>\<open>Exception("Circuit breaker is OPEN")\<close>\<close>
| RetriesFailed int last_exception \<comment> \<open>the exception raised after the retry loop\<close>
| TypeError \<comment> \<open>\<open>"Unknown" >= 500\<close>, or a time minus \<open>None\<close>\<close>
| OtherError string

datatype breaker_state = CLOSED | OPEN | HALF_OPEN

record circuit_breaker =
  failure_threshold :: int
  recovery_timeout :: int
  failure_count :: int
  last_failure_time :: "real option"
  state :: breaker_state

definition init_breaker :: "int \<Rightarrow> int \<Rightarrow> circuit_breaker" where
  \<comment> \<open>\<open>CircuitBreaker(failure_threshold, recovery_timeout)\<close>; the defaults are 5 and 60\<close>
  "init_breaker threshold timeout_s =
     \<lparr>failure_threshold = threshold, recovery_timeout = timeout_s, failure_count = 0,
      last_failure_time = None, state = CLOSED\<rparr>"

definition on_success :: "circuit_breaker \<Rightarrow> circuit_breaker" where
  "on_success cb = cb\<lparr>failure_count := 0, state := CLOSED\<rparr>"

definition on_failure :: "real \<Rightarrow> circuit_breaker \<Rightarrow> circuit_breaker" where
  "on_failure now cb =
     (let cb1 = cb\<lparr>failure_count := failure_count cb + 1, last_failure_time := Some now\<rparr>
      in if failure_count cb1 \<ge> failure_threshold cb1 then cb1\<lparr>state := OPEN\<rparr> else cb1)"

definition invoke :: "('w \<Rightarrow> (search_error + 'a) \<times> 'w) \<Rightarrow> real \<Rightarrow> circuit_breaker \<Rightarrow> 'w
    \<Rightarrow> (search_error + 'a) \<times> circuit_breaker \<times> 'w" where
  \<comment> \<open>the \<open>try\<close> block of \<open>call\<close>: a failure is counted and raised again\<close>
  "invoke func t_fail cb w =
     (case func w of
        (Inr result, w') \<Rightarrow> (Inr result, on_success cb, w')
      | (Inl e, w') \<Rightarrow> (Inl e, on_failure t_fail cb, w'))"

definition cb_call :: "circuit_breaker \<Rightarrow> real \<Rightarrow> real \<Rightarrow> ('w \<Rightarrow> (search_error + 'a) \<times> 'w) \<Rightarrow> 'w
    \<Rightarrow> (search_error + 'a) \<times> circuit_breaker \<times> 'w" where
  \<comment> \<open>\<open>CircuitBreaker.call\<close>; \<open>t_check\<close> is the clock read while the breaker is open,
      \<open>t_fail\<close> the clock read in \<open>_on_failure\<close>\<close>
  "cb_call cb t_check t_fail func w =
     (if state cb = OPEN
      then (case last_failure_time cb of
              None \<Rightarrow> (Inl TypeError, cb, w)
            | Some t_last \<Rightarrow>
                if t_check - t_last > real_of_int (recovery_timeout cb)
                then invoke func t_fail (cb\<lparr>state := HALF_OPEN\<rparr>) w
                else (Inl CircuitOpen, cb, w))
      else invoke func t_fail cb w)"

fun call_sequence :: "circuit_breaker \<Rightarrow> 'w
    \<Rightarrow> (real \<times> real \<times> ('w \<Rightarrow> (search_error + 'a) \<times> 'w)) list
    \<Rightarrow> (search_error + 'a) list \<times> circuit_breaker \<times> 'w" where
  \<comment> \<open>calls made one after the other through the same breaker, with their results\<close>
  "call_sequence cb w [] = ([], cb, w)"
| "call_sequence cb w ((t_check, t_fail, func) # rest) =
     (case cb_call cb t_check t_fail func w of
        (res, cb', w') \<Rightarrow>
          (case call_sequence cb' w' rest of
             (ress, cb'', w'') \<Rightarrow> (res # ress, cb'', w'')))"

record world =
  calls :: nat
  slept :: "nat list"

definition sleep :: "nat \<Rightarrow> world \<Rightarrow> world" where
  "sleep seconds w = w\<lparr>slept := slept w @ [seconds]\<rparr>"

record raw_result =
  raw_title :: "string option"
  raw_href :: "string option"
  raw_body :: "string option"
  read_at :: real \<comment> \<open>the reading of \<open>time.time()\<close> when the entry is copied\<close>

datatype outcome =
  Returned "raw_result list"
| Timeout
| ConnectionError
| HTTPError "int option" \<comment> \<open>the value of \<open>status_code\<close>; \<open>None\<close> is \<open>"Unknown"\<close>\<close>
| OtherException string

definition status_code_of :: "int option \<Rightarrow> int option" where
  \<comment> \<open>\<open>e.response.status_code if e.response else "Unknown"\<close>, from the status of the
      \<open>requests.Response\<close> that the exception carries (\<open>None\<close>: it carries none).
      The truth value of a \<open>requests.Response\<close> is its \<open>ok\<close> property, which is
      false for every status from 400 to 599 (the library's behaviour, not code of this
      repository); the result \<open>None\<close> is the string \<open>"Unknown"\<close>\<close>
  "status_code_of response =
     (case response of
        None \<Rightarrow> None
      | Some code \<Rightarrow> if 400 \<le> code \<and> code < 600 then None else Some code)"

definition http_error :: "int option \<Rightarrow> outcome" where
  \<comment> \<open>the outcome of a provider call that raises \<open>requests.exceptions.HTTPError\<close>
      with a response of the given status\<close>
  "http_error response = HTTPError (status_code_of response)"

record search_result =
  title :: string
  url :: string
  snippet :: string
  result_source :: string
  result_timestamp :: real
  query :: string

definition make_result :: "string \<Rightarrow> raw_result \<Rightarrow> search_result" where
  "make_result q r =
     \<lparr>title = get_or (raw_title r) [], url = get_or (raw_href r) [],
      snippet = get_or (raw_body r) [], result_source = ''duckduckgo'',
      result_timestamp = read_at r, query = q\<rparr>"

definition sleep_unless_last :: "int \<Rightarrow> nat \<Rightarrow> nat \<Rightarrow> world \<Rightarrow> world" where
  \<comment> \<open>\<open>if attempt < self.max_retries - 1: time.sleep(seconds)\<close>\<close>
  "sleep_unless_last max_retries attempt seconds w =
     (if int attempt < max_retries - 1 then sleep seconds w else w)"

fun retry_loop :: "int \<Rightarrow> (nat \<Rightarrow> outcome) \<Rightarrow> string \<Rightarrow> nat list \<Rightarrow> last_exception \<Rightarrow> world
    \<Rightarrow> (search_error + search_result list) \<times> world" where
  \<comment> \<open>the \<open>for attempt in range(self.max_retries)\<close> loop over the attempts still to
      make, and the \<open>raise\<close> after it\<close>
  "retry_loop max_retries provider q [] last_exc w = (Inl (RetriesFailed max_retries last_exc), w)"
| "retry_loop max_retries provider q (attempt # rest) last_exc w =
     (let w1 = w\<lparr>calls := calls w + 1\<rparr>
      in case provider (calls w) of
           Returned rs \<Rightarrow> (Inr (map (make_result q) rs), w1)
         | Timeout \<Rightarrow>
             retry_loop max_retries provider q rest LastTimeout
               (sleep_unless_last max_retries attempt (2 ^ attempt) w1)
         | ConnectionError \<Rightarrow>
             retry_loop max_retries provider q rest LastConnectionError
               (sleep_unless_last max_retries attempt 1 w1)
         | HTTPError status_code \<Rightarrow>
             (case status_code of
                None \<Rightarrow> (Inl TypeError, w1)
              | Some code \<Rightarrow>
                  if code = 429
                  then retry_loop max_retries provider q rest (LastHTTP status_code)
                         (sleep 60 w1)
                  else if code \<ge> 500
                  then retry_loop max_retries provider q rest (LastHTTP status_code)
                         (sleep_unless_last max_retries attempt 5 w1)
                  else (Inl (RetriesFailed max_retries (LastHTTP status_code)), w1))
         | OtherException msg \<Rightarrow>
             retry_loop max_retries provider q rest (LastOther msg)
               (sleep_unless_last max_retries attempt 1 w1))"

definition perform_search_with_retry :: "int \<Rightarrow> (nat \<Rightarrow> outcome) \<Rightarrow> string \<Rightarrow> world
    \<Rightarrow> (search_error + search_result list) \<times> world" where
  "perform_search_with_retry max_retries provider q w =
     retry_loop max_retries provider q [0 ..< nat max_retries] NoException w"

definition acceptable :: "search_result \<Rightarrow> bool" where
  \<comment> \<open>the checks of \<open>_validate_results\<close> in their order; the three required keys are
      always there in a result built by \<open>make_result\<close>\<close>
  "acceptable r =
     (if \<not> (startswith (url r) ''http://'' \<or> startswith (url r) ''https://'') then False
      else if strip (title r) = [] \<or> strip (snippet r) = [] then False
      else if length (strip (title r)) < 3 \<or> length (strip (snippet r)) < 10 then False
      else True)"

definition validate_results :: "search_result list \<Rightarrow> search_result list" where
  "validate_results results =
     map (\<lambda>r. r\<lparr>title := strip (title r), snippet := strip (snippet r)\<rparr>)
       (filter acceptable results)"

record engine =
  max_retries :: int
  timeout :: int
  max_results :: int
  breaker :: circuit_breaker

definition init_engine :: "int \<Rightarrow> int \<Rightarrow> int \<Rightarrow> engine" where
  \<comment> \<open>\<open>WebSearchEngine(max_retries, timeout, max_results)\<close>; the defaults are 3, 10, 5\<close>
  "init_engine r t m =
     \<lparr>max_retries = r, timeout = t, max_results = m, breaker = init_breaker 5 60\<rparr>"

definition search :: "(string \<Rightarrow> int \<Rightarrow> int \<Rightarrow> nat \<Rightarrow> outcome) \<Rightarrow> string \<Rightarrow> int option
    \<Rightarrow> real \<Rightarrow> real \<Rightarrow> engine \<Rightarrow> world
    \<Rightarrow> (search_error + search_result list) \<times> engine \<times> world" where
  \<comment> \<open>\<open>WebSearchEngine.search\<close>: \<open>ddgs q n t\<close> is the provider for query \<open>q\<close>, \<open>n\<close>
      results and time limit \<open>t\<close>; an exception of the \<open>try\<close> block is logged and the
      empty list returned\<close>
  "search ddgs q max_results_arg t_check t_fail eng w =
     (let n = (case max_results_arg of None \<Rightarrow> max_results eng | Some k \<Rightarrow> k)
      in case cb_call (breaker eng) t_check t_fail
                (perform_search_with_retry (max_retries eng) (ddgs q n (timeout eng)) q) w of
           (Inr results, cb', w') \<Rightarrow>
             (Inr (validate_results results), eng\<lparr>breaker := cb'\<rparr>, w')
         | (Inl e, cb', w') \<Rightarrow> (Inr [], eng\<lparr>breaker := cb'\<rparr>, w'))"

section \<open>ExtendedRAGPipeline.ask_question (extended_rag_pipeline.py)\<close>

text \<open>
  The collaborators of the pipeline (the local knowledge source, the web search with its
  HTML processing, the answer generator) and the clock are oracles over a state \<open>'w\<close>
  of the outside world.  \<open>_search_local\<close> and \<open>_search_web_enhanced\<close> catch every
  exception themselves and return a list; \<open>_generate_response\<close> may raise.  The
  dictionary that \<open>ask_question\<close> returns is the object stored in the interaction: what
  the caller writes into it later also shows in the memory, while \<open>i_response\<close> here
  keeps the value at the time of recording.
\<close>

record generated =
  gen_answer :: string
  gen_sources :: "source_entry list"
  gen_context_chunks :: nat
  gen_context_length :: nat

record 'w environment =
  clock :: "'w \<Rightarrow> int \<times> 'w" \<comment> \<open>\<open>datetime.now()\<close>\<close>
  search_local :: "string \<Rightarrow> 'w \<Rightarrow> chunk list \<times> 'w"
  search_web_enhanced :: "string \<Rightarrow> int \<Rightarrow> 'w \<Rightarrow> chunk list \<times> 'w"
  raw_score :: "'w \<Rightarrow> chunk \<Rightarrow> real"
  generate_response :: "string \<Rightarrow> chunk list \<Rightarrow> 'w \<Rightarrow> (exn + generated) \<times> 'w"

record 'w pipeline =
  memory :: conversation_memory
  total_queries :: nat
  web_searches :: nat
  local_searches :: nat
  cache_hits :: nat
  outside :: 'w

definition seconds_between :: "int \<Rightarrow> int \<Rightarrow> real" where
  \<comment> \<open>\<open>(later - earlier).total_seconds()\<close>\<close>
  "seconds_between earlier later = real_of_int (later - earlier) / 1000000"

definition sorry_text :: string where
  "sorry_text =
     ''D'' @ [CHR 0xE9] @ ''sol'' @ [CHR 0xE9]
     @ '', une erreur s'est produite lors du traitement de votre question.''"

definition full_response ::
  "generated \<Rightarrow> string list \<Rightarrow> chunk list \<Rightarrow> chunk list \<Rightarrow> real \<Rightarrow> response" where
  "full_response g queries web_results local_results seconds =
     \<lparr>answer = gen_answer g, sources = Some (gen_sources g), error = None,
      context_chunks = Some (gen_context_chunks g),
      context_length = Some (gen_context_length g),
      search_queries = Some queries,
      web_sources = Some (map (\<lambda>r. get_or (chunk_url r) []) web_results),
      local_sources = Some (length local_results),
      processing_time = Some seconds, strategy = None, sub_questions_count = None,
      sub_responses = None, sequential_steps = None\<rparr>"

definition finish_question :: "'w environment \<Rightarrow> string \<Rightarrow> int \<Rightarrow> chunk list \<Rightarrow> chunk list
    \<Rightarrow> string list \<Rightarrow> 'w pipeline \<Rightarrow> (exn + response) \<times> 'w pipeline" where
  \<comment> \<open>steps 3 to 6 of the \<open>try\<close> block: fusion, generation, the response, the memory\<close>
  "finish_question env question start_time local_results web_results queries p =
     (let combined_context = fuse_results (raw_score env (outside p)) local_results web_results
      in case generate_response env question combined_context (outside p) of
           (Inl e, w1) \<Rightarrow> (Inl e, p\<lparr>outside := w1\<rparr>)
         | (Inr g, w1) \<Rightarrow>
             (case clock env w1 of (t_end, w2) \<Rightarrow>
              case clock env w2 of (t_stamp, w3) \<Rightarrow>
              case clock env w3 of (t_clean, w4) \<Rightarrow>
                (let resp = full_response g queries web_results local_results
                              (seconds_between start_time t_end)
                 in case add_interaction question resp t_stamp t_clean (memory p) of
                      (Inl e, m') \<Rightarrow> (Inl e, p\<lparr>memory := m', outside := w4\<rparr>)
                    | (Inr u, m') \<Rightarrow> (Inr resp, p\<lparr>memory := m', outside := w4\<rparr>))))"

definition ask_question_try :: "'w environment \<Rightarrow> string \<Rightarrow> bool \<Rightarrow> int \<Rightarrow> int \<Rightarrow> 'w pipeline
    \<Rightarrow> (exn + response) \<times> 'w pipeline" where
  \<comment> \<open>the \<open>try\<close> block of \<open>ask_question\<close>; \<open>is_recently_searched\<close> is called with its
      default window of one hour\<close>
  "ask_question_try env question use_web max_web_results start_time p =
     (case search_local env question (outside p) of (local_results, w1) \<Rightarrow>
      (let p1 = p\<lparr>local_searches := local_searches p + 1, outside := w1\<rparr>
       in if use_web
          then (case clock env (outside p1) of (t, w2) \<Rightarrow>
                (let p2 = p1\<lparr>outside := w2\<rparr>
                 in case is_recently_searched question 1 t (memory p2) of
                      Inl e \<Rightarrow> (Inl e, p2)
                    | Inr recently \<Rightarrow>
                        if \<not> recently
                        then (case search_web_enhanced env question max_web_results
                                     (outside p2) of
                                (web_results, w3) \<Rightarrow>
                                  finish_question env question start_time local_results
                                    web_results [question]
                                    (p2\<lparr>web_searches := web_searches p2 + 1,
                                        outside := w3\<rparr>))
                        else finish_question env question start_time local_results [] []
                               (p2\<lparr>cache_hits := cache_hits p2 + 1\<rparr>)))
          else finish_question env question start_time local_results [] [] p1))"

definition error_response :: "exn \<Rightarrow> real \<Rightarrow> response" where
  \<comment> \<open>the dictionary of the \<open>except\<close> branch of \<open>ask_question\<close>\<close>
  "error_response e seconds =
     (plain_response sorry_text)
       \<lparr>sources := Some [], error := Some e, processing_time := Some seconds\<rparr>"

definition ask_question :: "'w environment \<Rightarrow> string \<Rightarrow> bool \<Rightarrow> int \<Rightarrow> 'w pipeline
    \<Rightarrow> (exn + response) \<times> 'w pipeline" where
  "ask_question env question use_web max_web_results p =
     (let p0 = p\<lparr>total_queries := total_queries p + 1\<rparr>
      in case clock env (outside p0) of (start_time, w0) \<Rightarrow>
         (case ask_question_try env question use_web max_web_results start_time
                 (p0\<lparr>outside := w0\<rparr>) of
            (Inr resp, p') \<Rightarrow> (Inr resp, p')
          | (Inl e, p') \<Rightarrow>
              (case clock env (outside p') of (t, w') \<Rightarrow>
                 (Inr (error_response e (seconds_between start_time t)),
                  p'\<lparr>outside := w'\<rparr>))))"

section \<open>WebAwareAgent (agent_orchestrator.py)\<close>

text \<open>
  The agent reaches the pipeline through \<open>ask\<close> (\<open>self.rag_pipeline.ask_question\<close> with
  the question and \<open>use_web\<close>) and the clock through \<open>now\<close>, both over a state \<open>'s\<close>
  that holds everything outside the agent; \<open>ask\<close> may raise.
  \<open>average_response_time\<close> is a float in the source, an exact real here.
\<close>

record agent_stats =
  total_questions :: nat
  web_searches_performed :: nat
  sub_questions_generated :: nat
  average_response_time :: real

definition newline :: string where
  "newline = [CHR 0x0A]"

fun join :: "string \<Rightarrow> string list \<Rightarrow> string" where
  \<comment> \<open>\<open>sep.join(parts)\<close>\<close>
  "join sep [] = []"
| "join sep [x] = x"
| "join sep (x # y # ys) = x @ sep @ join sep (y # ys)"

fun digits_of :: "nat \<Rightarrow> nat \<Rightarrow> string" where
  \<comment> \<open>the decimal digits of \<open>n\<close>, at most \<open>fuel + 1\<close> of them\<close>
  "digits_of 0 n = [char_of (48 + n mod 10)]"
| "digits_of (Suc fuel) n =
     (if n < 10 then [char_of (48 + n)]
      else digits_of fuel (n div 10) @ [char_of (48 + n mod 10)])"

definition str_nat :: "nat \<Rightarrow> string" where
  \<comment> \<open>\<open>str(n)\<close> for a natural number: \<open>n\<close> has at most \<open>n + 1\<close> digits\<close>
  "str_nat n = digits_of n n"

definition execute_single_search ::
  "(string \<Rightarrow> bool \<Rightarrow> 's \<Rightarrow> (exn + response) \<times> 's) \<Rightarrow> string \<Rightarrow> analysis \<Rightarrow> 's
    \<Rightarrow> (exn + response) \<times> 's" where
  "execute_single_search ask question a s = ask question (needs_web a) s"

fun merge_loop :: "string list \<Rightarrow> source_entry list \<Rightarrow> source_entry list" where
  "merge_loop seen_urls [] = []"
| "merge_loop seen_urls (src # rest) =
     (if src_url src \<noteq> [] \<and> src_url src \<notin> set seen_urls
      then src # merge_loop (src_url src # seen_urls) rest
      else merge_loop seen_urls rest)"

definition merge_sources :: "source_entry list list \<Rightarrow> source_entry list" where
  \<comment> \<open>\<open>_merge_sources\<close>, from the \<open>sources\<close> lists of the responses in order\<close>
  "merge_sources source_lists = merge_loop [] (concat source_lists)"

definition shorten :: "string \<Rightarrow> string" where
  \<comment> \<open>\<open>a[:300] + "..." if len(a) > 300 else a\<close>\<close>
  "shorten a = (if length a > 300 then take 300 a @ ''...'' else a)"

definition synthesize_responses :: "sub_response list \<Rightarrow> string" where
  "synthesize_responses subs =
     join newline
       ([''Voici une synth'' @ [CHR 0xE8] @ ''se des informations trouv'' @ [CHR 0xE9]
         @ ''es:'']
        @ map (\<lambda>resp. newline @ ''**'' @ sub_question resp @ ''**'' @ newline
                       @ shorten (sub_answer resp)) subs
        @ [newline @ ''Cette r'' @ [CHR 0xE9]
           @ ''ponse combine des informations provenant de sources multiples.''])"

definition synthesize_sequential_responses :: "step_response list \<Rightarrow> string" where
  "synthesize_sequential_responses steps =
     join newline
       ([''Voici le r'' @ [CHR 0xE9] @ ''sultat de l'analyse '' @ [CHR 0xE9]
         @ ''tape par '' @ [CHR 0xE9] @ ''tape:'']
        @ concat (map (\<lambda>resp. [newline @ ''### '' @ [CHR 0xC9] @ ''tape ''
                                 @ str_nat (step resp) @ '': '' @ step_question resp,
                               step_answer resp]) steps)
        @ [newline @ ''**Conclusion:** Cette analyse progressive permet d'approfondir le sujet.''])"

fun parallel_loop ::
  "(string \<Rightarrow> bool \<Rightarrow> 's \<Rightarrow> (exn + response) \<times> 's) \<Rightarrow> analysis \<Rightarrow> string list
    \<Rightarrow> sub_response list \<Rightarrow> string list \<Rightarrow> nat \<Rightarrow> 's
    \<Rightarrow> (exn + sub_response list \<times> string list \<times> nat) \<times> 's" where
  \<comment> \<open>the \<open>for sub_q in sub_questions\<close> loop of \<open>_execute_parallel_search\<close>\<close>
  "parallel_loop ask a [] subs all_web all_local s = (Inr (subs, all_web, all_local), s)"
| "parallel_loop ask a (sub_q # rest) subs all_web all_local s =
     (case execute_single_search ask sub_q a s of
        (Inl e, s') \<Rightarrow> (Inl e, s')
      | (Inr resp, s') \<Rightarrow>
          parallel_loop ask a rest
            (subs @ [\<lparr>sub_question = sub_q, sub_answer = answer resp,
                       sub_sources = get_or (sources resp) []\<rparr>])
            (all_web @ get_or (web_sources resp) [])
            (all_local + get_or (local_sources resp) 0) s')"

definition execute_parallel_search ::
  "(string \<Rightarrow> bool \<Rightarrow> 's \<Rightarrow> (exn + response) \<times> 's) \<Rightarrow> string list \<Rightarrow> analysis \<Rightarrow> 's
    \<Rightarrow> (exn + response) \<times> 's" where
  \<comment> \<open>\<open>list(set(all_web_sources))\<close> has no specified order; \<open>remdups\<close> fixes one\<close>
  "execute_parallel_search ask subqs a s =
     (case parallel_loop ask a subqs [] [] 0 s of
        (Inl e, s') \<Rightarrow> (Inl e, s')
      | (Inr (subs, all_web, all_local), s') \<Rightarrow>
          (Inr ((plain_response (synthesize_responses subs))
                  \<lparr>sources := Some (merge_sources (map sub_sources subs)),
                   web_sources := Some (remdups all_web),
                   local_sources := Some all_local,
                   sub_responses := Some subs\<rparr>), s'))"

fun sequential_loop ::
  "(string \<Rightarrow> bool \<Rightarrow> 's \<Rightarrow> (exn + response) \<times> 's) \<Rightarrow> analysis \<Rightarrow> int \<Rightarrow> nat \<Rightarrow> string list
    \<Rightarrow> string \<Rightarrow> step_response list \<Rightarrow> 's \<Rightarrow> (exn + step_response list) \<times> 's" where
  \<comment> \<open>the \<open>for i, sub_q in enumerate(sub_questions)\<close> loop of
      \<open>_execute_sequential_search\<close>, from index \<open>i\<close> on\<close>
  "sequential_loop ask a max_depth i [] current_context all_responses s =
     (Inr all_responses, s)"
| "sequential_loop ask a max_depth i (sub_q # rest) current_context all_responses s =
     (if int i \<ge> max_depth then (Inr all_responses, s)
      else (let enriched =
                  (if current_context \<noteq> []
                   then sub_q @ '' (Contexte: '' @ take 200 current_context @ ''...)''
                   else sub_q)
            in case execute_single_search ask enriched a s of
                 (Inl e, s') \<Rightarrow> (Inl e, s')
               | (Inr resp, s') \<Rightarrow>
                   sequential_loop ask a max_depth (i + 1) rest
                     (current_context @ '' '' @ answer resp)
                     (all_responses
                      @ [\<lparr>step = i + 1, step_question = sub_q, enriched_question = enriched,
                           step_answer = answer resp,
                           step_sources = get_or (sources resp) []\<rparr>]) s'))"

definition execute_sequential_search ::
  "(string \<Rightarrow> bool \<Rightarrow> 's \<Rightarrow> (exn + response) \<times> 's) \<Rightarrow> string list \<Rightarrow> analysis \<Rightarrow> int \<Rightarrow> 's
    \<Rightarrow> (exn + response) \<times> 's" where
  "execute_sequential_search ask subqs a max_depth s =
     (case sequential_loop ask a max_depth 0 subqs [] [] s of
        (Inl e, s') \<Rightarrow> (Inl e, s')
      | (Inr steps, s') \<Rightarrow>
          (Inr ((plain_response (synthesize_sequential_responses steps))
                  \<lparr>sources := Some (merge_sources (map step_sources steps)),
                   sequential_steps := Some steps\<rparr>), s'))"

definition execute_strategy ::
  "(string \<Rightarrow> bool \<Rightarrow> 's \<Rightarrow> (exn + response) \<times> 's) \<Rightarrow> string \<Rightarrow> int \<Rightarrow> analysis \<Rightarrow> 's
    \<Rightarrow> (exn + response) \<times> 's" where
  \<comment> \<open>step 2 of \<open>answer_question\<close>: the dispatch on the strategy\<close>
  "execute_strategy ask question max_depth a s =
     (if search_strategy a = ''single'' then execute_single_search ask question a s
      else if search_strategy a = ''parallel''
      then execute_parallel_search ask (sub_questions a) a s
      else if search_strategy a = ''sequential''
      then execute_sequential_search ask (sub_questions a) a max_depth s
      else execute_single_search ask question a s)"

definition unavailable_text :: string where
  "unavailable_text =
     ''Le syst'' @ [CHR 0xE8] @ ''me de recherche web n'est pas disponible actuellement. ''
     @ ''Veuillez v'' @ [CHR 0xE9] @ ''rifier que tous les composants sont install''
     @ [CHR 0xE9] @ ''s.''"

definition answer_question_try ::
  "(string \<Rightarrow> bool \<Rightarrow> 's \<Rightarrow> (exn + response) \<times> 's) \<Rightarrow> ('s \<Rightarrow> int \<times> 's) \<Rightarrow> bool \<Rightarrow> string
    \<Rightarrow> int \<Rightarrow> int \<Rightarrow> agent_stats \<Rightarrow> 's \<Rightarrow> (exn + response) \<times> agent_stats \<times> 's" where
  \<comment> \<open>the \<open>try\<close> block of \<open>answer_question\<close>; the division by \<open>total_questions\<close>
      raises when that is 0\<close>
  "answer_question_try ask now available question max_depth start_time stats s =
     (if \<not> available
      then (case now s of (t, s1) \<Rightarrow>
              (Inr ((plain_response unavailable_text)
                      \<lparr>processing_time := Some (seconds_between start_time t),
                       strategy := Some ''unavailable''\<rparr>), stats, s1))
      else (let a = analyze_question question
            in case execute_strategy ask question max_depth a s of
                 (Inl e, s1) \<Rightarrow> (Inl e, stats, s1)
               | (Inr resp, s1) \<Rightarrow>
                   (case now s1 of (t, s2) \<Rightarrow>
                    (let seconds = seconds_between start_time t;
                         resp' = resp\<lparr>processing_time := Some seconds,
                                      strategy := Some (search_strategy a),
                                      sub_questions_count := Some (length (sub_questions a))\<rparr>;
                         stats1 = stats
                           \<lparr>web_searches_performed :=
                               web_searches_performed stats + estimated_searches a,
                            sub_questions_generated :=
                               sub_questions_generated stats + length (sub_questions a)\<rparr>
                     in if total_questions stats1 = 0
                        then (Inl (Raised ''float division by zero''), stats1, s2)
                        else (Inr resp',
                              stats1\<lparr>average_response_time :=
                                (average_response_time stats1
                                   * real (total_questions stats1 - 1) + seconds)
                                / real (total_questions stats1)\<rparr>, s2)))))"

definition answer_question ::
  "(string \<Rightarrow> bool \<Rightarrow> 's \<Rightarrow> (exn + response) \<times> 's) \<Rightarrow> ('s \<Rightarrow> int \<times> 's) \<Rightarrow> bool \<Rightarrow> string
    \<Rightarrow> int \<Rightarrow> agent_stats \<Rightarrow> 's \<Rightarrow> (exn + response) \<times> agent_stats \<times> 's" where
  \<comment> \<open>\<open>WebAwareAgent.answer_question\<close>: the clock and the counter before the \<open>try\<close>,
      the \<open>try\<close> block, and the \<open>except Exception\<close> branch\<close>
  "answer_question ask now available question max_depth stats s =
     (case now s of (start_time, s0) \<Rightarrow>
      (let stats0 = stats\<lparr>total_questions := total_questions stats + 1\<rparr>
       in case answer_question_try ask now available question max_depth start_time
                 stats0 s0 of
            (Inr resp, stats1, s1) \<Rightarrow> (Inr resp, stats1, s1)
          | (Inl e, stats1, s1) \<Rightarrow>
              (case now s1 of (t, s2) \<Rightarrow>
                 (Inr ((plain_response sorry_text)
                         \<lparr>error := Some e,
                          processing_time := Some (seconds_between start_time t),
                          strategy := Some ''error''\<rparr>), stats1, s2))))"

subsection \<open>The agent on the pipeline\<close>

definition pipeline_ask :: "'w environment \<Rightarrow> string \<Rightarrow> bool \<Rightarrow> 'w pipeline
    \<Rightarrow> (exn + response) \<times> 'w pipeline" where
  \<comment> \<open>\<open>self.rag_pipeline.ask_question(question, use_web=use_web)\<close>; \<open>max_web_results\<close>
      has its default, 3\<close>
  "pipeline_ask env question use_web p = ask_question env question use_web 3 p"

definition pipeline_now :: "'w environment \<Rightarrow> 'w pipeline \<Rightarrow> int \<times> 'w pipeline" where
  \<comment> \<open>the agent's own reading of the clock\<close>
  "pipeline_now env p = (case clock env (outside p) of (t, w) \<Rightarrow> (t, p\<lparr>outside := w\<rparr>))"

definition rounds_of :: "analysis \<Rightarrow> int \<Rightarrow> nat" where
  \<comment> \<open>the number of retrieval rounds that a request with this analysis runs\<close>
  "rounds_of a max_depth =
     (if search_strategy a = ''parallel'' then length (sub_questions a)
      else if search_strategy a = ''sequential''
      then min (length (sub_questions a)) (nat max_depth)
      else 1)"

inductive appended :: "nat \<Rightarrow> conversation_memory \<Rightarrow> conversation_memory \<Rightarrow> bool" where
  \<comment> \<open>\<open>appended n m m'\<close>: \<open>m'\<close> is \<open>m\<close> after \<open>n\<close> calls of \<open>add_interaction\<close>\<close>
  appended_none: "appended 0 m m"
| appended_more: "appended n m m1 \<Longrightarrow>
     appended (Suc n) m (snd (add_interaction q r t_stamp t_clean m1))"

section \<open>Auxiliary notions and example inputs\<close>

definition recorded :: "memory_op list \<Rightarrow> interaction list" where
  \<comment> \<open>the interactions that the \<open>Record\<close> operations of a run build, in order\<close>
  "recorded ops = concat (map (\<lambda>op. case op of
       Record q resp t_stamp t_clean \<Rightarrow> [new_interaction q resp t_stamp]
     | _ \<Rightarrow> []) ops)"

definition newest :: "int \<Rightarrow> interaction list \<Rightarrow> interaction list" where
  \<comment> \<open>the last \<open>n\<close> entries of a list (all of it when it is shorter)\<close>
  "newest n xs = drop (length xs - nat n) xs"

definition validated :: "search_result \<Rightarrow> bool" where
  \<comment> \<open>what \<open>_validate_results\<close> lets through: an http(s) URL, a trimmed title of at
      least 3 and a trimmed snippet of at least 10 characters\<close>
  "validated r =
     ((startswith (url r) ''http://'' \<or> startswith (url r) ''https://'')
      \<and> 3 \<le> length (title r) \<and> 10 \<le> length (snippet r)
      \<and> strip (title r) = title r \<and> strip (snippet r) = snippet r)"

definition memory_example :: conversation_memory where
  \<comment> \<open>the default memory after one interaction recorded at time 0\<close>
  "memory_example =
     snd (add_interaction ''prix bitcoin'' (plain_response ''ok'') 0 0 (init_memory 10 24))"

definition example_ops :: "memory_op list" where
  \<comment> \<open>three interactions recorded one hour apart, then two lookups\<close>
  "example_ops =
     [Record ''q0'' (plain_response ''a0'') (hours_delta 0) (hours_delta 0),
      Record ''q1'' (plain_response ''a1'') (hours_delta 1) (hours_delta 1),
      Record ''q2'' (plain_response ''a2'') (hours_delta 2) (hours_delta 2),
      RecentContext 1 (hours_delta 2),
      RecentlySearched ''q2'' 1 (hours_delta 2)]"

definition mk_chunk :: "string \<Rightarrow> string \<Rightarrow> chunk" where
  "mk_chunk txt st =
     \<lparr>chunk_text = Some txt, chunk_source = None, source_type = Some st,
      relevance_score = None, chunk_title = None, chunk_url = None\<rparr>"

definition example_local :: "chunk list" where
  "example_local = [mk_chunk ''l1'' ''local'', mk_chunk ''l2'' ''local'']"

definition example_web :: "chunk list" where
  "example_web =
     [mk_chunk ''w1'' ''web'', mk_chunk ''w2'' ''web'', mk_chunk ''w3'' ''web'',
      mk_chunk ''w4'' ''web'', mk_chunk ''w5'' ''web'']"

definition example_raw :: "chunk \<Rightarrow> real" where
  \<comment> \<open>the scores of the scenario: local 0.7 and 0.72, three fresh web chunks 0.8, two
      old ones 0.5\<close>
  "example_raw r =
     (if chunk_text r = Some ''l1'' then 0.7
      else if chunk_text r = Some ''l2'' then 0.72
      else if chunk_text r \<in> {Some ''w1'', Some ''w2'', Some ''w3''} then 0.8
      else 0.5)"

definition world0 :: world where
  "world0 = \<lparr>calls = 0, slept = []\<rparr>"

definition always_timeout :: "nat \<Rightarrow> outcome" where
  "always_timeout k = Timeout"

definition failing_search :: "world \<Rightarrow> (search_error + search_result list) \<times> world" where
  "failing_search = perform_search_with_retry 3 always_timeout ''q''"

definition failing_calls ::
  "(real \<times> real \<times> (world \<Rightarrow> (search_error + search_result list) \<times> world)) list" where
  \<comment> \<open>five calls, entered at seconds 0, 10, 20, 30, 40, each failing 5 seconds later\<close>
  "failing_calls =
     [(0, 5, failing_search), (10, 15, failing_search), (20, 25, failing_search),
      (30, 35, failing_search), (40, 45, failing_search)]"

definition tripped_breaker :: circuit_breaker where
  "tripped_breaker =
     \<lparr>failure_threshold = 5, recovery_timeout = 60, failure_count = 5,
      last_failure_time = Some 45, state = OPEN\<rparr>"

definition open_engine :: engine where
  "open_engine = \<lparr>max_retries = 3, timeout = 10, max_results = 5, breaker = tripped_breaker\<rparr>"

definition failing_ddgs :: "string \<Rightarrow> int \<Rightarrow> int \<Rightarrow> nat \<Rightarrow> outcome" where
  "failing_ddgs q n t k = Timeout"

definition example_ddgs :: "string \<Rightarrow> int \<Rightarrow> int \<Rightarrow> nat \<Rightarrow> outcome" where
  \<comment> \<open>a provider that returns one acceptable entry and one with a URL that is not
      http(s)\<close>
  "example_ddgs q n t k =
     Returned
       [\<lparr>raw_title = Some ''  Bitcoin  '', raw_href = Some ''https://example.org/btc'',
         raw_body = Some ''Le prix du bitcoin '', read_at = 0\<rparr>,
        \<lparr>raw_title = Some ''Bitcoin'', raw_href = Some ''ftp://example.org/btc'',
         raw_body = Some ''Le prix du bitcoin'', read_at = 0\<rparr>]"

definition rate_limited :: "nat \<Rightarrow> outcome" where
  \<comment> \<open>the provider answers HTTP 429 on its first three calls and returns a (here
      empty) result from the fourth on\<close>
  "rate_limited k = (if k < 3 then http_error (Some 429) else Returned [])"

subsection \<open>Notions for the rounds of a request\<close>

definition dependable :: "'w environment \<Rightarrow> int \<Rightarrow> bool" where
  \<comment> \<open>the answer generator never raises, and no cutoff taken from the clock (for the
      one-hour window and for a TTL of \<open>ttl\<close> hours) overflows\<close>
  "dependable env ttl =
     ((\<forall>q c w. \<not> isl (fst (generate_response env q c w)))
      \<and> (\<forall>w. \<not> isl (cutoff_before (fst (clock env w)) 1)
              \<and> \<not> isl (cutoff_before (fst (clock env w)) ttl)))"

definition round_effect ::
  "string \<Rightarrow> response \<Rightarrow> conversation_memory \<Rightarrow> conversation_memory \<Rightarrow> bool" where
  \<comment> \<open>what one \<open>ask_question\<close> does to the memory, by the response it returns: without
      an \<open>error\<close> key, exactly its own \<open>add_interaction\<close>, which returned; with one,
      nothing, or an \<open>add_interaction\<close> that raised that error\<close>
  "round_effect q r m m' =
     (case error r of
        None \<Rightarrow> (\<exists>t_stamp t_clean. add_interaction q r t_stamp t_clean m = (Inr (), m'))
      | Some e \<Rightarrow> m' = m
                 \<or> (\<exists>r0 t_stamp t_clean. add_interaction q r0 t_stamp t_clean m = (Inl e, m')))"

definition ran :: "'w environment \<Rightarrow> nat \<Rightarrow> 'w pipeline \<Rightarrow> 'w pipeline \<Rightarrow> bool" where
  \<comment> \<open>\<open>k\<close> rounds of the pipeline lead from \<open>p\<close> to \<open>p'\<close>\<close>
  "ran env k p p' =
     (total_queries p' = total_queries p + k
      \<and> ttl_hours (memory p') = ttl_hours (memory p)
      \<and> (\<exists>n\<le>k. appended n (memory p) (memory p'))
      \<and> (dependable env (ttl_hours (memory p)) \<longrightarrow> appended k (memory p) (memory p')))"

definition steady :: "'w environment \<Rightarrow> int \<Rightarrow> bool" where
  \<comment> \<open>any two readings of the clock are less than \<open>ttl\<close> hours apart\<close>
  "steady env ttl = (\<forall>w w'. fst (clock env w) - fst (clock env w') < hours_delta ttl)"

definition fresh :: "'w environment \<Rightarrow> conversation_memory \<Rightarrow> bool" where
  \<comment> \<open>no stored interaction is older than the TTL at any reading of the clock\<close>
  "fresh env m =
     (\<forall>i \<in> set (interactions m). \<forall>w. fst (clock env w) - i_timestamp i < hours_delta (ttl_hours m))"

definition recorded_rounds ::
  "'w environment \<Rightarrow> string list \<Rightarrow> conversation_memory \<Rightarrow> conversation_memory \<Rightarrow> bool" where
  \<comment> \<open>\<open>m'\<close> is \<open>m\<close> with one new interaction at the end for each question of \<open>asked\<close>,
      in that order, each stamped with a reading of the clock; nothing else changed\<close>
  "recorded_rounds env asked m m' =
     (\<exists>news. interactions m' = interactions m @ news
        \<and> map i_question news = asked
        \<and> (\<forall>i \<in> set news. \<exists>w. i_timestamp i = fst (clock env w))
        \<and> max_memory m' = max_memory m \<and> ttl_hours m' = ttl_hours m)"

definition stats0 :: agent_stats where
  "stats0 = \<lparr>total_questions = 0, web_searches_performed = 0,
             sub_questions_generated = 0, average_response_time = 0\<rparr>"

definition tick :: "nat \<Rightarrow> int \<times> nat" where
  \<comment> \<open>a clock that stands still in November 2023 and counts its readings\<close>
  "tick n = (1700000000000000, n + 1)"


definition env0 :: "nat environment" where
  \<comment> \<open>no local and no web chunks, a generator that answers \<open>ok\<close>\<close>
  "env0 =
     \<lparr>clock = tick,
      search_local = (\<lambda>q w. ([], w)),
      search_web_enhanced = (\<lambda>q n w. ([], w)),
      raw_score = (\<lambda>w c. 0.5),
      generate_response =
        (\<lambda>q c w. (Inr \<lparr>gen_answer = ''ok'', gen_sources = [],
                        gen_context_chunks = length c, gen_context_length = 0\<rparr>, w))\<rparr>"

definition pipeline0 :: "nat pipeline" where
  \<comment> \<open>the pipeline as constructed: an empty memory with the defaults, counters at 0\<close>
  "pipeline0 =
     \<lparr>memory = init_memory 10 24, total_queries = 0, web_searches = 0,
      local_searches = 0, cache_hits = 0, outside = 0\<rparr>"

section \<open>Properties\<close>

subsection \<open>SearchPlanner\<close>

lemma analyze_question_fields:
  "needs_web (analyze_question q) = needs_web_search q"
  "complexity (analyze_question q) = assess_complexity q"
  "sub_questions (analyze_question q) = break_down_question q"
  by (simp_all add: analyze_question_def Let_def)

lemma break_down_connectors_only: "break_down_question question_connectors_only = []"
  unfolding question_connectors_only_def by code_simp

lemma complexity_connectors_only: "assess_complexity question_connectors_only = 7"
  unfolding question_connectors_only_def by code_simp

text \<open>
  C5: for every question whose decomposition is not empty, \<open>analyze_question\<close> selects
  \<open>single\<close> when the sub-question list has length 1, otherwise \<open>sequential\<close> when the
  complexity is greater than 7 and \<open>parallel\<close> else; \<open>estimated_searches\<close> is the number
  of sub-questions when there are several, else 1.  (The decomposition is empty only
  through the missed case of \<open>_break_down_question\<close> shown under C7; the code then
  takes the branch of \<open>len(sub_questions) > 1\<close> being false, see
  \<open>analyze_question_empty_decomposition\<close>.)
\<close>

theorem analyze_question_strategy:
  assumes "break_down_question q \<noteq> []"
  shows "search_strategy (analyze_question q) =
     (if length (sub_questions (analyze_question q)) = 1 then ''single''
      else if complexity (analyze_question q) > 7 then ''sequential'' else ''parallel'')
   \<and> estimated_searches (analyze_question q) =
     (if length (sub_questions (analyze_question q)) > 1
      then length (sub_questions (analyze_question q)) else 1)
   \<and> sub_questions (analyze_question q) = break_down_question q
   \<and> complexity (analyze_question q) = assess_complexity q"
proof -
  have "length (break_down_question q) \<noteq> 0" using assms by simp
  then have "length (break_down_question q) = 1 \<or> length (break_down_question q) > 1"
    by linarith
  then show ?thesis by (auto simp: analyze_question_def Let_def)
qed

lemma break_down_question_pair:
  "break_down_question question_two_parts =
     [''quel est le niveau du bitcoin?'',
      ''quel est le niveau du gaz sur le site de la banque de paris ce matin?'']"
  unfolding question_two_parts_def by code_simp

theorem analyze_question_strategy_witness:
  "break_down_question question_bitcoin_fr \<noteq> []
   \<and> search_strategy (analyze_question question_bitcoin_fr) = ''single''
   \<and> estimated_searches (analyze_question question_bitcoin_fr) = 1
   \<and> break_down_question question_two_parts \<noteq> []
   \<and> search_strategy (analyze_question question_two_parts) = ''parallel''
   \<and> estimated_searches (analyze_question question_two_parts) = 2"
proof -
  have h1: "break_down_question question_bitcoin_fr \<noteq> []"
    unfolding question_bitcoin_fr_def by code_simp
  have h2: "break_down_question question_two_parts \<noteq> []"
    by (simp add: break_down_question_pair)
  have c2: "assess_complexity question_two_parts = 7"
    unfolding question_two_parts_def by code_simp
  have l1: "length (break_down_question question_bitcoin_fr) = 1"
    unfolding question_bitcoin_fr_def by code_simp
  from analyze_question_strategy [OF h1] analyze_question_strategy [OF h2] h1 h2 c2 l1
  show ?thesis by (simp add: break_down_question_pair)
qed

lemma analyze_question_empty_decomposition:
  "sub_questions (analyze_question question_connectors_only) = []
   \<and> search_strategy (analyze_question question_connectors_only) = ''single''
   \<and> estimated_searches (analyze_question question_connectors_only) = 1"
  by (simp add: analyze_question_def Let_def break_down_connectors_only)

text \<open>
  C6, as stated: for \<open>What is the Bitcoin price today?\<close> the analysis does not report
  a need for the web, and its complexity is below 2.
\<close>

theorem analyze_bitcoin_en_counterexample:
  "\<not> (needs_web (analyze_question question_bitcoin_en)
        \<and> 2 \<le> complexity (analyze_question question_bitcoin_en))"
  unfolding question_bitcoin_en_def by code_simp

text \<open>
  C6 (amended): the indicator lists hold French keywords.  For
  \<open>What is the Bitcoin price today?\<close> the analysis yields \<open>needs_web = False\<close>,
  complexity 0 and strategy \<open>single\<close>; for the French form
  \<open>Quel est le prix du Bitcoin aujourd'hui?\<close> it yields \<open>needs_web = True\<close> (keywords
  \<open>aujourd'hui\<close> and \<open>prix\<close>), complexity 7 and strategy \<open>single\<close>, the question not
  being decomposed.
\<close>

theorem analyze_bitcoin:
  "analyze_question question_bitcoin_en =
     \<lparr>needs_web = False, complexity = 0, sub_questions = [question_bitcoin_en],
      search_strategy = ''single'', estimated_searches = 1\<rparr>
   \<and> analyze_question question_bitcoin_fr =
     \<lparr>needs_web = True, complexity = 7, sub_questions = [question_bitcoin_fr],
      search_strategy = ''single'', estimated_searches = 1\<rparr>"
  unfolding question_bitcoin_en_def question_bitcoin_fr_def by code_simp

text \<open>
  C7: the decomposition of a question of more than 20 words whose segments between the
  connectors are all blank is the empty list.
\<close>

theorem break_down_question_empty:
  "length (split question_connectors_only) = 21
   \<and> break_down_question question_connectors_only = []"
  unfolding question_connectors_only_def by code_simp

subsection \<open>ConversationMemory\<close>

lemma cutoff_before_value:
  "cutoff_before now h = Inr c \<Longrightarrow> c = now - hours_delta h"
  by (auto simp: cutoff_before_def timedelta_hours_def datetime_minus_def
      split: sum.splits if_splits)

lemma cleanup_expired_params:
  "max_memory (snd (cleanup_expired t m)) = max_memory m"
  "ttl_hours (snd (cleanup_expired t m)) = ttl_hours m"
  "length (interactions (snd (cleanup_expired t m))) \<le> length (interactions m)"
  by (simp_all add: cleanup_expired_def split: sum.splits)

lemma add_interaction_params:
  "max_memory (snd (add_interaction q r t1 t2 m)) = max_memory m"
  "ttl_hours (snd (add_interaction q r t1 t2 m)) = ttl_hours m"
  by (simp_all add: add_interaction_def Let_def cleanup_expired_params)

lemma drop1_tl: "drop 1 xs = tl xs"
  by (cases xs) simp_all

lemma capped_newest:
  assumes "0 \<le> mm" and "int (length ys) \<le> mm"
  shows "(if int (length (ys @ [x])) > mm then tl (ys @ [x]) else ys @ [x])
           = newest mm (ys @ [x])"
proof (cases "int (length (ys @ [x])) > mm")
  case True
  with assms have "length ys = nat mm" by simp
  then have "length (ys @ [x]) - nat mm = 1" by simp
  then have "newest mm (ys @ [x]) = tl (ys @ [x])" by (simp only: newest_def drop1_tl)
  with True show ?thesis by (simp only: if_True)
next
  case False
  then have "length (ys @ [x]) - nat mm = 0" by simp
  then have "newest mm (ys @ [x]) = ys @ [x]" by (simp only: newest_def drop_0)
  with False show ?thesis by (simp only: if_False)
qed

lemma add_interaction_kept:
  assumes "0 \<le> max_memory m" and "int (length (interactions m)) \<le> max_memory m"
  shows "interactions (snd (add_interaction q r t1 t2 m)) =
     (case cutoff_before t2 (ttl_hours m) of
        Inl e \<Rightarrow> newest (max_memory m) (interactions m @ [new_interaction q r t1])
      | Inr c \<Rightarrow> filter (\<lambda>i. c < i_timestamp i)
                  (newest (max_memory m) (interactions m @ [new_interaction q r t1])))"
proof -
  let ?K = "newest (max_memory m) (interactions m @ [new_interaction q r t1])"
  have "add_interaction q r t1 t2 m = cleanup_expired t2 (m\<lparr>interactions := ?K\<rparr>)"
    by (simp only: add_interaction_def Let_def capped_newest [OF assms])
  then show ?thesis
    by (cases "cutoff_before t2 (ttl_hours m)") (simp_all add: cleanup_expired_def)
qed

lemma newest_length: "0 \<le> mm \<Longrightarrow> int (length (newest mm xs)) \<le> mm"
  by (simp add: newest_def)

lemma add_interaction_length:
  assumes "0 \<le> max_memory m" and "int (length (interactions m)) \<le> max_memory m"
  shows "int (length (interactions (snd (add_interaction q r t1 t2 m)))) \<le> max_memory m"
proof -
  let ?K = "newest (max_memory m) (interactions m @ [new_interaction q r t1])"
  have "length (interactions (snd (add_interaction q r t1 t2 m))) \<le> length ?K"
    by (simp add: add_interaction_kept [OF assms] split: sum.splits)
  with newest_length [OF assms(1), of "interactions m @ [new_interaction q r t1]"]
  show ?thesis by linarith
qed

lemma run_memory_ops_params:
  "max_memory (run_memory_ops m ops) = max_memory m \<and> ttl_hours (run_memory_ops m ops) = ttl_hours m"
proof (induction ops arbitrary: m)
  case Nil
  then show ?case by (simp add: run_memory_ops_def)
next
  case (Cons op ops)
  have "max_memory (apply_memory_op m op) = max_memory m \<and> ttl_hours (apply_memory_op m op) = ttl_hours m"
    by (cases op) (simp_all add: add_interaction_params)
  with Cons [of "apply_memory_op m op"] show ?case by (simp add: run_memory_ops_def)
qed

lemma run_memory_ops_length:
  assumes "0 \<le> max_memory m" and "int (length (interactions m)) \<le> max_memory m"
  shows "int (length (interactions (run_memory_ops m ops))) \<le> max_memory m"
  using assms
proof (induction ops arbitrary: m)
  case Nil
  then show ?case by (simp add: run_memory_ops_def)
next
  case (Cons op ops)
  have step: "max_memory (apply_memory_op m op) = max_memory m
      \<and> int (length (interactions (apply_memory_op m op))) \<le> max_memory m"
    using Cons.prems by (cases op) (simp_all add: add_interaction_params add_interaction_length)
  with Cons.IH [of "apply_memory_op m op"] Cons.prems show ?case
    by (simp add: run_memory_ops_def)
qed

lemma add_interaction_fresh:
  assumes "fst (add_interaction q r t1 t2 m) = Inr ()"
    and "i \<in> set (interactions (snd (add_interaction q r t1 t2 m)))"
  shows "t2 - i_timestamp i < hours_delta (ttl_hours m)"
proof -
  obtain c where c: "cutoff_before t2 (ttl_hours m) = Inr c"
    using assms(1) by (auto simp: add_interaction_def Let_def cleanup_expired_def split: sum.splits)
  then have "c = t2 - hours_delta (ttl_hours m)" by (rule cutoff_before_value)
  with c assms(2) show ?thesis
    by (auto simp: add_interaction_def Let_def cleanup_expired_def)
qed

lemma get_recent_context_window:
  "get_recent_context h now m = Inr rs \<Longrightarrow> i \<in> set rs \<Longrightarrow> now - i_timestamp i < hours_delta h"
  by (auto simp: get_recent_context_def Let_def split: sum.splits
      dest!: cutoff_before_value in_set_dropD)

lemma get_recent_context_suffix:
  assumes "get_recent_context h now m = Inr rs"
  shows "length rs \<le> 5
     \<and> suffix rs (filter (\<lambda>i. now - i_timestamp i < hours_delta h) (interactions m))"
proof -
  obtain c where c: "cutoff_before now h = Inr c"
    using assms by (auto simp: get_recent_context_def split: sum.splits)
  then have cv: "c = now - hours_delta h" by (rule cutoff_before_value)
  have eq: "(\<lambda>i. c < i_timestamp i) = (\<lambda>i. now - i_timestamp i < hours_delta h)"
    unfolding cv by (rule ext) linarith
  have rs: "rs = drop (length (filter (\<lambda>i. c < i_timestamp i) (interactions m)) - 5)
                  (filter (\<lambda>i. c < i_timestamp i) (interactions m))"
    using assms c by (simp add: get_recent_context_def Let_def)
  show ?thesis unfolding rs eq by (simp add: suffix_drop)
qed

lemma hours_delta_mono: "h \<le> k \<Longrightarrow> hours_delta h \<le> hours_delta k"
  by (simp add: hours_delta_def)

lemma subseq_tl: "subseq (tl xs) xs"
  by (cases xs) (simp_all add: list_emb_Cons)

lemma subseq_drop: "subseq (drop n xs) xs"
  by (metis append_take_drop_id list_emb_append2 subseq_order.order_refl)

lemma add_interaction_subseq:
  assumes "0 \<le> max_memory m" and "int (length (interactions m)) \<le> max_memory m"
  shows "subseq (interactions (snd (add_interaction q r t1 t2 m)))
     (interactions m @ [new_interaction q r t1])"
proof -
  let ?xs = "interactions m @ [new_interaction q r t1]"
  let ?K = "newest (max_memory m) ?xs"
  have k: "subseq ?K ?xs" unfolding newest_def by (rule subseq_drop)
  have "subseq (interactions (snd (add_interaction q r t1 t2 m))) ?K"
    by (simp add: add_interaction_kept [OF assms] split: sum.splits)
  then show ?thesis using k by (rule subseq_order.order_trans)
qed

lemma run_memory_ops_subseq:
  assumes "0 \<le> max_memory m" and "int (length (interactions m)) \<le> max_memory m"
  shows "subseq (interactions (run_memory_ops m ops)) (interactions m @ recorded ops)"
  using assms
proof (induction ops arbitrary: m)
  case Nil
  then show ?case by (simp add: run_memory_ops_def recorded_def)
next
  case (Cons op ops)
  have step: "subseq (interactions (apply_memory_op m op)) (interactions m @ recorded [op])"
    using Cons.prems by (cases op) (simp_all add: recorded_def add_interaction_subseq)
  have inv: "0 \<le> max_memory (apply_memory_op m op)"
      "int (length (interactions (apply_memory_op m op))) \<le> max_memory (apply_memory_op m op)"
    using Cons.prems by (cases op; simp add: add_interaction_params add_interaction_length)+
  have "subseq (interactions (run_memory_ops (apply_memory_op m op) ops))
          (interactions (apply_memory_op m op) @ recorded ops)"
    using inv by (rule Cons.IH)
  also have "subseq (interactions (apply_memory_op m op) @ recorded ops)
          ((interactions m @ recorded [op]) @ recorded ops)"
    using step by (intro list_emb_append_mono) simp_all
  finally show ?case by (simp add: run_memory_ops_def recorded_def)
qed

lemma newest_at_cap:
  assumes "1 \<le> mm" and "int (length ys) \<le> mm"
  shows "newest mm (ys @ [x]) = (if int (length ys) = mm then tl ys else ys) @ [x]"
proof (cases "int (length ys) = mm")
  case True
  then have "length (ys @ [x]) - nat mm = 1" by simp
  then have "newest mm (ys @ [x]) = tl (ys @ [x])" by (simp only: newest_def drop1_tl)
  moreover have "ys \<noteq> []" using True assms(1) by auto
  ultimately show ?thesis using True by simp
next
  case False
  with assms have "length (ys @ [x]) - nat mm = 0" by simp
  then have "newest mm (ys @ [x]) = ys @ [x]" by (simp only: newest_def drop_0)
  with False show ?thesis by simp
qed

text \<open>
  C8, as stated: \<open>get_recent_context(hours=48)\<close>, called 30 hours after the only
  interaction was recorded and with no \<open>add_interaction\<close> since, returns that
  interaction, which is older than the 24 hours of \<open>ttl_hours\<close>.
\<close>

theorem recent_context_ttl_counterexample:
  "ttl_hours memory_example = 24
   \<and> map_sum id (map i_timestamp) (get_recent_context 48 (hours_delta 30) memory_example)
       = Inr [0]
   \<and> hours_delta 30 - 0 > hours_delta (ttl_hours memory_example)"
  unfolding memory_example_def by code_simp

text \<open>
  C8 (amended): for a memory built with \<open>max_memory \<ge> 0\<close>, after every sequence of
  record and lookup operations the stored list holds at most \<open>max_memory\<close> entries, all
  of them recorded interactions in the order of recording.  A record on such a memory
  keeps the newest \<open>max_memory\<close> entries of the stored list extended by the new
  interaction, that is, with \<open>max_memory \<ge> 1\<close>, it drops the oldest entry when the list
  is full and stores the new one last; then it purges the entries that are
  \<open>ttl_hours\<close> old or older (unless the cutoff overflows, which leaves them).
  \<open>get_recent_context(hours)\<close>, when it returns, returns at most 5 interactions, the
  last ones of the stored interactions younger than \<open>hours\<close>, in stored order; none of
  them is older than \<open>hours\<close>, hence none older than \<open>ttl_hours\<close> when
  \<open>hours \<le> ttl_hours\<close>.  Entries older than \<open>ttl_hours\<close> are purged by
  \<open>add_interaction\<close> only: right after one that returned, no stored entry is that old.
\<close>

theorem memory_bounded:
  assumes "0 \<le> mm"
  shows "int (length (interactions (run_memory_ops (init_memory mm ttl) ops))) \<le> mm
   \<and> subseq (interactions (run_memory_ops (init_memory mm ttl) ops)) (recorded ops)
   \<and> interactions (snd (add_interaction q r t_stamp t_clean
          (run_memory_ops (init_memory mm ttl) ops))) =
       (case cutoff_before t_clean ttl of
          Inl e \<Rightarrow> newest mm (interactions (run_memory_ops (init_memory mm ttl) ops)
                               @ [new_interaction q r t_stamp])
        | Inr c \<Rightarrow> filter (\<lambda>i. c < i_timestamp i)
                    (newest mm (interactions (run_memory_ops (init_memory mm ttl) ops)
                                 @ [new_interaction q r t_stamp])))
   \<and> (1 \<le> mm \<longrightarrow>
        newest mm (interactions (run_memory_ops (init_memory mm ttl) ops)
                    @ [new_interaction q r t_stamp]) =
          (if int (length (interactions (run_memory_ops (init_memory mm ttl) ops))) = mm
           then tl (interactions (run_memory_ops (init_memory mm ttl) ops))
           else interactions (run_memory_ops (init_memory mm ttl) ops))
          @ [new_interaction q r t_stamp])
   \<and> (get_recent_context h now m = Inr rs \<longrightarrow>
        length rs \<le> 5
        \<and> suffix rs (filter (\<lambda>i. now - i_timestamp i < hours_delta h) (interactions m))
        \<and> (\<forall>i \<in> set rs. now - i_timestamp i < hours_delta h)
        \<and> (h \<le> ttl_hours m \<longrightarrow>
             (\<forall>i \<in> set rs. now - i_timestamp i < hours_delta (ttl_hours m))))
   \<and> (fst (add_interaction q r t_stamp t_clean m) = Inr () \<longrightarrow>
        (\<forall>i \<in> set (interactions (snd (add_interaction q r t_stamp t_clean m))).
            t_clean - i_timestamp i < hours_delta (ttl_hours m)))"
proof -
  let ?M = "run_memory_ops (init_memory mm ttl) ops"
  have p: "max_memory ?M = mm" "ttl_hours ?M = ttl"
    using run_memory_ops_params [of "init_memory mm ttl" ops] by (simp_all add: init_memory_def)
  have a: "int (length (interactions ?M)) \<le> mm"
    using run_memory_ops_length [of "init_memory mm ttl" ops] assms
    by (simp add: init_memory_def)
  have a': "subseq (interactions ?M) (recorded ops)"
    using run_memory_ops_subseq [of "init_memory mm ttl" ops] assms by (simp add: init_memory_def)
  have k: "interactions (snd (add_interaction q r t_stamp t_clean ?M)) =
       (case cutoff_before t_clean ttl of
          Inl e \<Rightarrow> newest mm (interactions ?M @ [new_interaction q r t_stamp])
        | Inr c \<Rightarrow> filter (\<lambda>i. c < i_timestamp i)
                    (newest mm (interactions ?M @ [new_interaction q r t_stamp])))"
    using add_interaction_kept [of ?M q r t_stamp t_clean, unfolded p, OF assms a] .
  have cap: "1 \<le> mm \<longrightarrow>
        newest mm (interactions ?M @ [new_interaction q r t_stamp]) =
          (if int (length (interactions ?M)) = mm then tl (interactions ?M)
           else interactions ?M) @ [new_interaction q r t_stamp]"
    using newest_at_cap [OF _ a] by blast
  have d: "get_recent_context h now m = Inr rs \<longrightarrow>
        length rs \<le> 5
        \<and> suffix rs (filter (\<lambda>i. now - i_timestamp i < hours_delta h) (interactions m))
        \<and> (\<forall>i \<in> set rs. now - i_timestamp i < hours_delta h)
        \<and> (h \<le> ttl_hours m \<longrightarrow>
             (\<forall>i \<in> set rs. now - i_timestamp i < hours_delta (ttl_hours m)))"
  proof
    assume g: "get_recent_context h now m = Inr rs"
    have w: "\<forall>i \<in> set rs. now - i_timestamp i < hours_delta h"
      using get_recent_context_window [OF g] by blast
    have "h \<le> ttl_hours m \<longrightarrow>
             (\<forall>i \<in> set rs. now - i_timestamp i < hours_delta (ttl_hours m))"
      using w hours_delta_mono [of h "ttl_hours m"] by fastforce
    with get_recent_context_suffix [OF g] w show "length rs \<le> 5
        \<and> suffix rs (filter (\<lambda>i. now - i_timestamp i < hours_delta h) (interactions m))
        \<and> (\<forall>i \<in> set rs. now - i_timestamp i < hours_delta h)
        \<and> (h \<le> ttl_hours m \<longrightarrow>
             (\<forall>i \<in> set rs. now - i_timestamp i < hours_delta (ttl_hours m)))"
      by blast
  qed
  have f: "fst (add_interaction q r t_stamp t_clean m) = Inr () \<longrightarrow>
        (\<forall>i \<in> set (interactions (snd (add_interaction q r t_stamp t_clean m))).
            t_clean - i_timestamp i < hours_delta (ttl_hours m))"
    using add_interaction_fresh by blast
  from a a' k cap d f show ?thesis by (intro conjI)
qed

theorem memory_bounded_witness:
  "(0::int) \<le> 2
   \<and> map i_question (interactions (run_memory_ops (init_memory 2 24) example_ops))
       = [''q1'', ''q2'']
   \<and> map i_question (interactions (snd (add_interaction ''q3'' (plain_response ''a3'')
          (hours_delta 3) (hours_delta 3) (run_memory_ops (init_memory 2 24) example_ops))))
       = [''q2'', ''q3'']
   \<and> map_sum id (map i_question) (get_recent_context 1 (hours_delta 2)
          (run_memory_ops (init_memory 2 24) example_ops)) = Inr [''q2'']"
proof -
  have h: "(0::int) \<le> 2" by simp
  note th = memory_bounded [OF h, of 24 example_ops "''q3''" "plain_response ''a3''"
      "hours_delta 3" "hours_delta 3" 1 "hours_delta 2"
      "run_memory_ops (init_memory 2 24) example_ops"]
  have e1: "map i_question (interactions (run_memory_ops (init_memory 2 24) example_ops))
              = [''q1'', ''q2'']"
    unfolding example_ops_def by code_simp
  have e2: "map i_question (interactions (snd (add_interaction ''q3'' (plain_response ''a3'')
          (hours_delta 3) (hours_delta 3) (run_memory_ops (init_memory 2 24) example_ops))))
       = [''q2'', ''q3'']"
    unfolding example_ops_def by code_simp
  have e3: "map_sum id (map i_question) (get_recent_context 1 (hours_delta 2)
          (run_memory_ops (init_memory 2 24) example_ops)) = Inr [''q2'']"
    unfolding example_ops_def by code_simp
  from th e1 e2 e3 h show ?thesis by blast
qed

subsection \<open>Result fusion\<close>

lemma diversify_loop_subseq: "subseq (diversify_loop cs m rs) rs"
  by (induction rs arbitrary: cs) (auto simp: Let_def)

lemma diversify_loop_count:
  "int (length (filter (\<lambda>r. type_of_chunk r = st) (diversify_loop cs m rs)))
     \<le> max 0 (m - int (get_or (cs st) 0))"
proof (induction rs arbitrary: cs)
  case Nil
  then show ?case by simp
next
  case (Cons r rs)
  show ?case
  proof (cases "int (get_or (cs (type_of_chunk r)) 0) < m")
    case False
    then show ?thesis using Cons.IH [of cs] by (simp add: Let_def)
  next
    case True
    let ?cs = "cs(type_of_chunk r \<mapsto> get_or (cs (type_of_chunk r)) 0 + 1)"
    have ih: "int (length (filter (\<lambda>r. type_of_chunk r = st) (diversify_loop ?cs m rs)))
                \<le> max 0 (m - int (get_or (?cs st) 0))"
      by (rule Cons.IH)
    show ?thesis
    proof (cases "type_of_chunk r = st")
      case same: True
      have "get_or (?cs st) 0 = get_or (cs st) 0 + 1"
        using same by (simp add: get_or_def)
      with ih True same show ?thesis by (simp add: Let_def)
    next
      case diff: False
      have "get_or (?cs st) 0 = get_or (cs st) 0"
        using diff by (simp add: get_or_def)
      with ih True diff show ?thesis by (simp add: Let_def)
    qed
  qed
qed

lemma diversify_sources_count:
  "length (filter (\<lambda>r. type_of_chunk r = st) (diversify_sources rs 3)) \<le> 3"
  using diversify_loop_count [of st Map.empty 3 rs]
  by (simp add: diversify_sources_def get_or_def)

lemma subseq_take: "subseq (take n xs) xs"
  by (metis append_take_drop_id list_emb_prefix subseq_order.order_refl)

lemma subseq_set: "subseq xs ys \<Longrightarrow> set xs \<subseteq> set ys"
  using list_emb_set [of "(=)" xs ys] by auto

lemma subseq_filter_length:
  "subseq xs ys \<Longrightarrow> length (filter P xs) \<le> length (filter P ys)"
  by (rule list_emb_length [OF subseq_filter])

lemma subseq_sorted_wrt:
  "subseq xs ys \<Longrightarrow> sorted_wrt R ys \<Longrightarrow> sorted_wrt R xs"
proof (induction rule: list_emb.induct)
  case (list_emb_Nil ys)
  then show ?case by simp
next
  case (list_emb_Cons xs ys y)
  then show ?case by simp
next
  case (list_emb_Cons2 x y xs ys)
  have "set xs \<subseteq> set ys" using list_emb_Cons2.hyps(2) by (rule subseq_set)
  with list_emb_Cons2 show ?case by auto
qed

lemma score_key_scored:
  "r \<in> set (score_results raw rs) \<Longrightarrow> 0 \<le> score_key r \<and> score_key r \<le> 1"
  by (auto simp: score_results_def score_key_def get_or_def calculate_relevance_score_def)

lemma fuse_results_subseq:
  "subseq (fuse_results raw ls ws) (sort_key (\<lambda>x. - score_key x) (score_results raw (ls @ ws)))"
proof -
  let ?s = "sort_key (\<lambda>x. - score_key x) (score_results raw (ls @ ws))"
  have "subseq (take 10 (diversify_sources ?s 3)) (diversify_sources ?s 3)"
    by (metis append_take_drop_id list_emb_prefix subseq_order.order_refl)
  moreover have "subseq (diversify_sources ?s 3) ?s"
    by (simp add: diversify_sources_def diversify_loop_subseq)
  ultimately show ?thesis
    unfolding fuse_results_def Let_def by (rule subseq_order.order_trans)
qed

lemma sorted_desc_sort_key:
  "sorted_wrt (\<lambda>a b. score_key b \<le> score_key a) (sort_key (\<lambda>x. - score_key x) xs)"
proof -
  have "sorted (map (\<lambda>x. - score_key x) (sort_key (\<lambda>x. - score_key x) xs))"
    by (rule sorted_sort_key)
  then show ?thesis by (simp add: sorted_map sorted_wrt_iff_nth_less)
qed

text \<open>
  C9: whatever the two input lists and whatever the raw scores, \<open>_fuse_results\<close> returns
  at most 10 chunks, at most 3 of any one source type, in descending order of their
  scores, each score within [0, 1]; the output is a subsequence of the stably sorted
  input, so chunks of equal score keep their input order (local before web).
\<close>

theorem fuse_results_bounded:
  "length (fuse_results raw ls ws) \<le> 10
   \<and> length (filter (\<lambda>r. type_of_chunk r = st) (fuse_results raw ls ws)) \<le> 3
   \<and> sorted_wrt (\<lambda>a b. score_key b \<le> score_key a) (fuse_results raw ls ws)
   \<and> list_all (\<lambda>r. 0 \<le> score_key r \<and> score_key r \<le> 1) (fuse_results raw ls ws)
   \<and> subseq (fuse_results raw ls ws)
        (sort_key (\<lambda>x. - score_key x) (score_results raw (ls @ ws)))
   \<and> subseq (filter (\<lambda>r. score_key r = k) (fuse_results raw ls ws))
        (filter (\<lambda>r. score_key r = k) (score_results raw (ls @ ws)))"
proof -
  let ?out = "fuse_results raw ls ws"
  let ?scored = "score_results raw (ls @ ws)"
  let ?sorted = "sort_key (\<lambda>x. - score_key x) ?scored"
  have len: "length ?out \<le> 10"
    by (simp add: fuse_results_def Let_def)
  have "length (filter (\<lambda>r. type_of_chunk r = st) ?out)
          \<le> length (filter (\<lambda>r. type_of_chunk r = st) (diversify_sources ?sorted 3))"
    unfolding fuse_results_def Let_def by (rule subseq_filter_length [OF subseq_take])
  then have cap: "length (filter (\<lambda>r. type_of_chunk r = st) ?out) \<le> 3"
    using diversify_sources_count [of st ?sorted] by linarith
  have sub: "subseq ?out ?sorted" by (rule fuse_results_subseq)
  have srt: "sorted_wrt (\<lambda>a b. score_key b \<le> score_key a) ?out"
    by (rule subseq_sorted_wrt [OF sub sorted_desc_sort_key])
  have "set ?out \<subseteq> set ?scored"
    using subseq_set [OF sub] by simp
  then have rng: "list_all (\<lambda>r. 0 \<le> score_key r \<and> score_key r \<le> 1) ?out"
    using score_key_scored [of _ raw "ls @ ws"] by (auto simp: list_all_iff)
  have stable: "filter (\<lambda>r. score_key r = k) ?sorted = filter (\<lambda>r. score_key r = k) ?scored"
    using sort_key_stable [of "\<lambda>x. - score_key x" "- k" ?scored] by simp
  have "subseq (filter (\<lambda>r. score_key r = k) ?out) (filter (\<lambda>r. score_key r = k) ?sorted)"
    by (rule subseq_filter [OF sub])
  then have stab: "subseq (filter (\<lambda>r. score_key r = k) ?out)
        (filter (\<lambda>r. score_key r = k) ?scored)"
    by (simp only: stable)
  from len cap srt rng sub stab show ?thesis by blast
qed

theorem fuse_results_bounded_witness:
  "length (fuse_results example_raw example_local example_web) \<le> 10
   \<and> length (filter (\<lambda>r. type_of_chunk r = ''web'')
        (fuse_results example_raw example_local example_web)) \<le> 3
   \<and> map chunk_text (fuse_results example_raw example_local example_web)
        = [Some ''w1'', Some ''w2'', Some ''w3'', Some ''l2'', Some ''l1'']
   \<and> map score_key (fuse_results example_raw example_local example_web)
        = [0.8, 0.8, 0.8, 0.72, 0.7]"
proof -
  note th = fuse_results_bounded [of example_raw example_local example_web "''web''" 1]
  have e1: "map chunk_text (fuse_results example_raw example_local example_web)
        = [Some ''w1'', Some ''w2'', Some ''w3'', Some ''l2'', Some ''l1'']"
    by code_simp
  have e2: "map score_key (fuse_results example_raw example_local example_web)
        = [0.8, 0.8, 0.8, 0.72, 0.7]"
    by code_simp
  from th e1 e2 show ?thesis by blast
qed

subsection \<open>CircuitBreaker\<close>

lemma on_failure_fields:
  "failure_count (on_failure t cb) = failure_count cb + 1"
  "failure_threshold (on_failure t cb) = failure_threshold cb"
  "recovery_timeout (on_failure t cb) = recovery_timeout cb"
  "last_failure_time (on_failure t cb) = Some t"
  "state (on_failure t cb) =
     (if failure_count cb + 1 \<ge> failure_threshold cb then OPEN else state cb)"
  by (simp_all add: on_failure_def Let_def)

lemma cb_call_not_open:
  "state cb \<noteq> OPEN \<Longrightarrow> cb_call cb t1 t2 func w = invoke func t2 cb w"
  by (simp add: cb_call_def)

lemma invoke_failed:
  "invoke func t2 cb w = (res, cb', w') \<Longrightarrow> isl res \<Longrightarrow> cb' = on_failure t2 cb"
  by (auto simp: invoke_def split: prod.splits sum.splits)

lemma call_sequence_failures:
  assumes "call_sequence cb w cs = (ress, cb', w')"
    and "list_all isl ress"
    and "state cb \<noteq> OPEN"
    and "failure_count cb + int (length cs) \<le> failure_threshold cb"
    and "cs \<noteq> []"
  shows "failure_count cb' = failure_count cb + int (length cs)
     \<and> failure_threshold cb' = failure_threshold cb
     \<and> recovery_timeout cb' = recovery_timeout cb
     \<and> last_failure_time cb' = Some (fst (snd (last cs)))
     \<and> state cb' = (if failure_count cb + int (length cs) = failure_threshold cb
                     then OPEN else state cb)"
  using assms
proof (induction cs arbitrary: cb w ress)
  case Nil
  then show ?case by simp
next
  case (Cons c cs)
  obtain t1 t2 func where c: "c = (t1, t2, func)" by (cases c) auto
  obtain res cb1 w1 where first: "cb_call cb t1 t2 func w = (res, cb1, w1)"
    by (cases "cb_call cb t1 t2 func w") auto
  obtain ress1 where rest: "call_sequence cb1 w1 cs = (ress1, cb', w')" and ress: "ress = res # ress1"
    using Cons.prems(1) c first by (auto split: prod.splits)
  have fail: "isl res" and fails: "list_all isl ress1"
    using Cons.prems(2) ress by simp_all
  have cb1: "cb1 = on_failure t2 cb"
    using first fail Cons.prems(3) by (simp add: cb_call_not_open invoke_failed)
  show ?case
  proof (cases "cs = []")
    case True
    then have "cb' = cb1" using rest by simp
    with True cb1 c Cons.prems(4) show ?thesis
      by (auto simp: on_failure_fields)
  next
    case False
    then have len: "1 \<le> int (length cs)" by (cases cs) simp_all
    have "failure_count cb + (1 + int (length cs)) \<le> failure_threshold cb"
      using Cons.prems(4) by simp
    with len have small: "failure_count cb + 1 < failure_threshold cb"
      by linarith
    have st1: "state cb1 \<noteq> OPEN"
      using cb1 small Cons.prems(3) by (simp add: on_failure_fields)
    have bound: "failure_count cb1 + int (length cs) \<le> failure_threshold cb1"
      using cb1 Cons.prems(4) by (simp add: on_failure_fields)
    from Cons.IH [OF rest fails st1 bound False] cb1 c False small show ?thesis
      by (auto simp: on_failure_fields)
  qed
qed

lemma cb_call_blocked:
  assumes "state cb = OPEN" and "last_failure_time cb = Some t_last"
    and "t_check - t_last \<le> real_of_int (recovery_timeout cb)"
  shows "cb_call cb t_check t_fail func w = (Inl CircuitOpen, cb, w)"
  using assms by (simp add: cb_call_def)

text \<open>
  C2: a breaker created with a threshold of at least 1 is open after \<open>threshold\<close>
  consecutive failing calls, with that many failures counted; a call attempted then,
  less than \<open>recovery_timeout\<close> seconds after the last failure, raises the breaker's own
  exception and leaves breaker and world as they are: the function is not invoked, and
  in particular the provider's call count stays what it was.
\<close>

theorem breaker_opens_and_blocks:
  assumes "1 \<le> threshold"
    and "length cs = nat threshold"
    and "call_sequence (init_breaker threshold rt) w cs = (ress, cb', w')"
    and "list_all isl ress"
  shows "state cb' = OPEN \<and> failure_count cb' = threshold
     \<and> (t_check - fst (snd (last cs)) < real_of_int rt \<longrightarrow>
          cb_call cb' t_check t_fail func w2 = (Inl CircuitOpen, cb', w2)
          \<and> calls (snd (snd (cb_call cb' t_check t_fail
                 (perform_search_with_retry mr provider q) w2))) = calls w2)"
proof -
  have ne: "cs \<noteq> []" using assms(1,2) by auto
  have bound: "failure_count (init_breaker threshold rt) + int (length cs)
                 \<le> failure_threshold (init_breaker threshold rt)"
    using assms(1,2) by (simp add: init_breaker_def)
  have st0: "state (init_breaker threshold rt) \<noteq> OPEN" by (simp add: init_breaker_def)
  from call_sequence_failures [OF assms(3) assms(4) st0 bound ne] assms(1,2)
  have f: "failure_count cb' = threshold" "recovery_timeout cb' = rt"
    "last_failure_time cb' = Some (fst (snd (last cs)))" "state cb' = OPEN"
    by (simp_all add: init_breaker_def)
  show ?thesis
  proof (intro conjI impI)
    assume lt: "t_check - fst (snd (last cs)) < real_of_int rt"
    then have le: "t_check - fst (snd (last cs)) \<le> real_of_int (recovery_timeout cb')"
      using f(2) by simp
    show "cb_call cb' t_check t_fail func w2 = (Inl CircuitOpen, cb', w2)"
      by (rule cb_call_blocked [OF f(4) f(3) le])
    show "calls (snd (snd (cb_call cb' t_check t_fail
                 (perform_search_with_retry mr provider q) w2))) = calls w2"
      by (simp add: cb_call_blocked [OF f(4) f(3) le])
  qed (use f in simp_all)
qed

lemma failing_calls_run:
  "call_sequence (init_breaker 5 60) world0 failing_calls =
     (replicate 5 (Inl (RetriesFailed 3 LastTimeout)), tripped_breaker,
      \<lparr>calls = 15, slept = [1, 2, 1, 2, 1, 2, 1, 2, 1, 2]\<rparr>)"
  unfolding failing_calls_def failing_search_def world0_def tripped_breaker_def
  by code_simp

theorem breaker_opens_and_blocks_witness:
  "state tripped_breaker = OPEN \<and> failure_count tripped_breaker = 5
   \<and> fst (snd (call_sequence (init_breaker 5 60) world0 failing_calls)) = tripped_breaker
   \<and> cb_call tripped_breaker 100 101 failing_search \<lparr>calls = 15, slept = []\<rparr>
        = (Inl CircuitOpen, tripped_breaker, \<lparr>calls = 15, slept = []\<rparr>)"
proof -
  have h1: "(1::int) \<le> 5" by simp
  have h2: "length failing_calls = nat 5" by (simp add: failing_calls_def)
  have h4: "list_all isl (replicate 5 (Inl (RetriesFailed 3 LastTimeout)
               :: search_error + search_result list))"
    by (simp add: list_all_iff)
  have lt: "100 - fst (snd (last failing_calls)) < real_of_int 60"
    by (simp add: failing_calls_def)
  from breaker_opens_and_blocks [OF h1 h2 failing_calls_run h4,
      of 100 101 failing_search "\<lparr>calls = 15, slept = []\<rparr>" 3 always_timeout "''q''"] lt
  show ?thesis by (simp add: failing_calls_run)
qed

subsection \<open>WebSearchEngine\<close>

lemma dropWhile_rev_dropWhile:
  "dropWhile P (rev (dropWhile P (rev (dropWhile P s)))) = rev (dropWhile P (rev (dropWhile P s)))"
proof -
  define d where "d = dropWhile P s"
  define e where "e = dropWhile P (rev d)"
  have "dropWhile P (rev e) = rev e"
  proof (cases "e = []")
    case True
    then show ?thesis by simp
  next
    case False
    then have dne: "d \<noteq> []" by (auto simp: e_def)
    then have hd: "\<not> P (hd d)" unfolding d_def by (rule hd_dropWhile)
    have "rev d = takeWhile P (rev d) @ e"
      by (simp add: e_def)
    then have "d = rev e @ rev (takeWhile P (rev d))" by (metis rev_append rev_rev_ident)
    moreover have ne: "rev e \<noteq> []" using False by simp
    ultimately have "hd (rev e) = hd d" by (metis hd_append2)
    with hd have "\<not> P (hd (rev e))" by simp
    with ne show ?thesis by (cases "rev e") auto
  qed
  then show ?thesis by (simp add: e_def d_def)
qed

lemma strip_idem: "strip (strip s) = strip s"
proof -
  have "strip (strip s) = rev (dropWhile is_space (rev (dropWhile is_space (strip s))))"
    by (simp add: strip_def)
  also have "dropWhile is_space (strip s) = strip s"
    unfolding strip_def by (rule dropWhile_rev_dropWhile)
  also have "rev (dropWhile is_space (rev (strip s))) = strip s"
    by (simp add: strip_def)
  finally show ?thesis .
qed
lemma validate_results_validated: "list_all validated (validate_results rs)"
  by (auto simp: validate_results_def list_all_iff validated_def acceptable_def strip_idem
      split: if_splits)
lemma sleep_calls: "calls (sleep n w) = calls w" "slept (sleep n w) = slept w @ [n]"
  by (simp_all add: sleep_def)

lemma sleep_unless_last_calls: "calls (sleep_unless_last mr a n w) = calls w"
  by (simp add: sleep_unless_last_def sleep_calls)

lemma retry_loop_calls:
  "calls (snd (retry_loop mr provider q attempts last_exc w)) \<le> calls w + length attempts
   \<and> calls w \<le> calls (snd (retry_loop mr provider q attempts last_exc w))"
proof (induction attempts arbitrary: last_exc w)
  case Nil
  then show ?case by simp
next
  case (Cons a attempts)
  have up: "calls (snd (retry_loop mr provider q attempts l w1)) \<le> Suc (calls w + length attempts)"
    if "calls w1 = Suc (calls w)" for l w1
    using Cons.IH [of l w1] that by simp
  have low: "calls w \<le> calls (snd (retry_loop mr provider q attempts l w1))"
    if "calls w1 = Suc (calls w)" for l w1
    using Cons.IH [of l w1] that by simp
  show ?case
    by (cases "provider (calls w)")
       (auto simp: Let_def sleep_calls sleep_unless_last_calls intro!: up low
             split: option.splits)
qed

text \<open>
  C3, as stated: with the breaker open, and also with every retry exhausted, \<open>search\<close>
  returns normally, with the empty list; the caller observes no error.
\<close>

theorem search_returns_normally_counterexample:
  "state (breaker open_engine) = OPEN
   \<and> search failing_ddgs ''q'' None 100 101 open_engine world0 = (Inr [], open_engine, world0)
   \<and> fst (search failing_ddgs ''q'' None 0 1 (init_engine 3 10 5) world0) = Inr []
   \<and> calls (snd (snd (search failing_ddgs ''q'' None 0 1 (init_engine 3 10 5) world0))) = 3"
  unfolding open_engine_def tripped_breaker_def world0_def
  by code_simp

text \<open>
  C3 (amended): for every query and \<open>max_results\<close>, \<open>search\<close> returns a list of
  validated results and never fails; when the call through the circuit breaker fails
  (the breaker is open, every retry is exhausted, or any other exception), the list
  returned is empty.
\<close>

theorem search_never_fails:
  "\<exists>rs eng' w'. search ddgs q n t_check t_fail eng w = (Inr rs, eng', w')
     \<and> list_all validated rs
     \<and> (isl (fst (cb_call (breaker eng) t_check t_fail
            (perform_search_with_retry (max_retries eng)
               (ddgs q (case n of None \<Rightarrow> max_results eng | Some k \<Rightarrow> k) (timeout eng)) q) w))
         \<longrightarrow> rs = [])"
  by (auto simp: search_def Let_def validate_results_validated split: prod.splits sum.splits)

theorem search_never_fails_witness:
  "fst (search example_ddgs ''btc'' None 0 1 (init_engine 3 10 5) world0) =
     Inr [\<lparr>title = ''Bitcoin'', url = ''https://example.org/btc'',
           snippet = ''Le prix du bitcoin'', result_source = ''duckduckgo'',
           result_timestamp = 0, query = ''btc''\<rparr>]"
proof -
  note th = search_never_fails [of example_ddgs "''btc''" None 0 1 "init_engine 3 10 5" world0]
  have "fst (search example_ddgs ''btc'' None 0 1 (init_engine 3 10 5) world0) =
     Inr [\<lparr>title = ''Bitcoin'', url = ''https://example.org/btc'',
           snippet = ''Le prix du bitcoin'', result_source = ''duckduckgo'',
           result_timestamp = 0, query = ''btc''\<rparr>]"
    unfolding world0_def by code_simp
  with th show ?thesis by blast
qed

text \<open>
  C4: a provider call that raises \<open>HTTPError\<close> with a 429 response is not classified as
  a rate limit.  The response being falsy, \<open>status_code\<close> is \<open>"Unknown"\<close>; the test
  \<open>status_code == 429\<close> fails and \<open>status_code >= 500\<close> raises a \<open>TypeError\<close>, which
  leaves \<open>_perform_search_with_retry\<close> after one provider call, with no cooldown and
  no retry, although the provider would have answered on its fourth call.
\<close>

theorem rate_limit_not_retried:
  "http_error (Some 429) = HTTPError None
   \<and> rate_limited 3 = Returned []
   \<and> perform_search_with_retry 3 rate_limited ''q'' world0 =
       (Inl TypeError, \<lparr>calls = 1, slept = []\<rparr>)"
  unfolding world0_def by code_simp

subsection \<open>WebAwareAgent\<close>






subsection \<open>Interactions recorded by a request\<close>

lemma appended_trans:
  "appended k m1 m2 \<Longrightarrow> appended n m m1 \<Longrightarrow> appended (n + k) m m2"
proof (induction rule: appended.induct)
  case (appended_none m)
  then show ?case by simp
next
  case (appended_more k m1 m2 q r t_stamp t_clean)
  then have "appended (Suc (n + k)) m (snd (add_interaction q r t_stamp t_clean m2))"
    by (intro appended.appended_more) simp
  then show ?case by simp
qed

lemma appended_one: "appended (Suc 0) m (snd (add_interaction q r t1 t2 m))"
  by (rule appended_more [OF appended_none])

lemma add_interaction_ttl: "ttl_hours (snd (add_interaction q r t1 t2 m)) = ttl_hours m"
  by (simp add: add_interaction_def Let_def cleanup_expired_def split: sum.splits)

lemma add_interaction_succeeds:
  "\<not> isl (cutoff_before t2 (ttl_hours m)) \<Longrightarrow> fst (add_interaction q r t1 t2 m) = Inr ()"
  by (auto simp: add_interaction_def Let_def cleanup_expired_def split: sum.splits)

lemma full_response_error: "error (full_response g qs web loc sec) = None"
  by (simp add: full_response_def)

lemma finish_question_effect:
  assumes "finish_question env q st loc web qs p = (res, p')"
  shows "total_queries p' = total_queries p
     \<and> (case res of
          Inr r \<Rightarrow> error r = None
                   \<and> (\<exists>t1 t2. add_interaction q r t1 t2 (memory p) = (Inr (), memory p'))
        | Inl e \<Rightarrow> memory p' = memory p
                   \<or> (\<exists>r0 t1 t2. add_interaction q r0 t1 t2 (memory p) = (Inl e, memory p')))
     \<and> (dependable env (ttl_hours (memory p)) \<longrightarrow> \<not> isl res)"
proof -
  let ?ctx = "fuse_results (raw_score env (outside p)) loc web"
  obtain g w1 where gen: "generate_response env q ?ctx (outside p) = (g, w1)"
    by (cases "generate_response env q ?ctx (outside p)") auto
  show ?thesis
  proof (cases g)
    case (Inl e)
    with gen assms have "res = Inl e" "p' = p\<lparr>outside := w1\<rparr>"
      by (auto simp: finish_question_def Let_def)
    moreover have "\<not> dependable env (ttl_hours (memory p))"
      using gen Inl unfolding dependable_def by (metis fst_conv isl_def)
    ultimately show ?thesis by simp
  next
    case (Inr gg)
    obtain t_end w2 where c1: "clock env w1 = (t_end, w2)" by (cases "clock env w1") auto
    obtain t_stamp w3 where c2: "clock env w2 = (t_stamp, w3)" by (cases "clock env w2") auto
    obtain t_clean w4 where c3: "clock env w3 = (t_clean, w4)" by (cases "clock env w3") auto
    let ?r = "full_response gg qs web loc (seconds_between st t_end)"
    obtain a m' where add: "add_interaction q ?r t_stamp t_clean (memory p) = (a, m')"
      by (cases "add_interaction q ?r t_stamp t_clean (memory p)") auto
    have res: "res = (case a of Inl e \<Rightarrow> Inl e | Inr u \<Rightarrow> Inr ?r)"
      and p': "p' = p\<lparr>memory := m', outside := w4\<rparr>"
      using assms gen Inr c1 c2 c3 add
      by (auto simp: finish_question_def Let_def split: sum.splits)
    have dep: "dependable env (ttl_hours (memory p)) \<longrightarrow> \<not> isl a"
    proof
      assume "dependable env (ttl_hours (memory p))"
      then have "\<not> isl (cutoff_before (fst (clock env w3)) (ttl_hours (memory p)))"
        by (simp add: dependable_def)
      then have "fst (add_interaction q ?r t_stamp t_clean (memory p)) = Inr ()"
        using c3 by (simp add: add_interaction_succeeds)
      with add show "\<not> isl a" by simp
    qed
    show ?thesis
    proof (cases a)
      case (Inl e)
      with res p' add dep show ?thesis by auto
    next
      case (Inr u)
      with res p' add dep show ?thesis by (auto simp: full_response_error)
    qed
  qed
qed

lemma ask_question_try_effect:
  assumes "ask_question_try env q uw mw st p = (res, p')"
  shows "total_queries p' = total_queries p
     \<and> (case res of
          Inr r \<Rightarrow> error r = None
                   \<and> (\<exists>t1 t2. add_interaction q r t1 t2 (memory p) = (Inr (), memory p'))
        | Inl e \<Rightarrow> memory p' = memory p
                   \<or> (\<exists>r0 t1 t2. add_interaction q r0 t1 t2 (memory p) = (Inl e, memory p')))
     \<and> (dependable env (ttl_hours (memory p)) \<longrightarrow> \<not> isl res)"
proof -
  obtain loc w1 where sl: "search_local env q (outside p) = (loc, w1)"
    by (cases "search_local env q (outside p)") auto
  let ?p1 = "p\<lparr>local_searches := local_searches p + 1, outside := w1\<rparr>"
  show ?thesis
  proof (cases uw)
    case False
    with assms sl have "finish_question env q st loc [] [] ?p1 = (res, p')"
      by (simp add: ask_question_try_def Let_def)
    from finish_question_effect [OF this] show ?thesis by (cases res) simp_all
  next
    case True
    obtain t w2 where c: "clock env w1 = (t, w2)" by (cases "clock env w1") auto
    let ?p2 = "?p1\<lparr>outside := w2\<rparr>"
    show ?thesis
    proof (cases "is_recently_searched q 1 t (memory p)")
      case (Inl e)
      with assms sl True c have "res = Inl e" "p' = ?p2"
        by (auto simp: ask_question_try_def Let_def)
      moreover have "isl (cutoff_before (fst (clock env w1)) 1)"
        using Inl c by (auto simp: is_recently_searched_def split: sum.splits)
      then have "\<not> dependable env (ttl_hours (memory p))"
        unfolding dependable_def by blast
      ultimately show ?thesis by simp
    next
      case (Inr recently)
      show ?thesis
      proof (cases recently)
        case True
        with assms sl \<open>uw\<close> c Inr
        have "finish_question env q st loc [] [] (?p2\<lparr>cache_hits := cache_hits ?p2 + 1\<rparr>)
               = (res, p')"
          by (simp add: ask_question_try_def Let_def)
        from finish_question_effect [OF this] show ?thesis by (cases res) simp_all
      next
        case False
        obtain web w3 where sw: "search_web_enhanced env q mw w2 = (web, w3)"
          by (cases "search_web_enhanced env q mw w2") auto
        with assms sl \<open>uw\<close> c Inr False
        have "finish_question env q st loc web [q]
                (?p2\<lparr>web_searches := web_searches ?p2 + 1, outside := w3\<rparr>) = (res, p')"
          by (simp add: ask_question_try_def Let_def)
        from finish_question_effect [OF this] show ?thesis by (cases res) simp_all
      qed
    qed
  qed
qed

lemma ask_question_effect:
  "\<exists>r p'. ask_question env q uw mw p = (Inr r, p')
     \<and> total_queries p' = total_queries p + 1
     \<and> round_effect q r (memory p) (memory p')
     \<and> (dependable env (ttl_hours (memory p)) \<longrightarrow> error r = None)"
proof -
  let ?p0 = "p\<lparr>total_queries := total_queries p + 1\<rparr>"
  obtain st w0 where c: "clock env (outside p) = (st, w0)" by (cases "clock env (outside p)") auto
  obtain res p1 where tr: "ask_question_try env q uw mw st (?p0\<lparr>outside := w0\<rparr>) = (res, p1)"
    by (cases "ask_question_try env q uw mw st (?p0\<lparr>outside := w0\<rparr>)") auto
  note eff = ask_question_try_effect [OF tr]
  show ?thesis
  proof (cases res)
    case (Inr r)
    with c tr eff show ?thesis
      by (auto simp: ask_question_def Let_def round_effect_def)
  next
    case (Inl e)
    obtain t w' where c2: "clock env (outside p1) = (t, w')"
      by (cases "clock env (outside p1)") auto
    from Inl c tr c2 have "ask_question env q uw mw p =
        (Inr (error_response e (seconds_between st t)), p1\<lparr>outside := w'\<rparr>)"
      by (simp add: ask_question_def Let_def)
    moreover have "error (error_response e (seconds_between st t)) = Some e"
      by (simp add: error_response_def)
    ultimately show ?thesis using eff Inl
      by (auto simp: round_effect_def)
  qed
qed

lemma round_effect_appended:
  assumes "round_effect q r m m'"
  shows "(\<exists>n\<le>1. appended n m m') \<and> (error r = None \<longrightarrow> appended 1 m m')
     \<and> ttl_hours m' = ttl_hours m"
proof (cases "error r")
  case None
  with assms obtain t1 t2 where "add_interaction q r t1 t2 m = (Inr (), m')"
    by (auto simp: round_effect_def)
  then have m': "m' = snd (add_interaction q r t1 t2 m)" by simp
  have "appended 1 m m'" unfolding m' using appended_one by simp
  moreover have "ttl_hours m' = ttl_hours m" unfolding m' by (rule add_interaction_ttl)
  ultimately show ?thesis by auto
next
  case (Some e)
  with assms consider "m' = m"
    | r0 t1 t2 where "add_interaction q r0 t1 t2 m = (Inl e, m')"
    by (auto simp: round_effect_def)
  then show ?thesis
  proof cases
    case 1
    then have "appended 0 m m'" by (simp add: appended_none)
    with 1 Some show ?thesis by auto
  next
    case 2
    then have m': "m' = snd (add_interaction q r0 t1 t2 m)" by simp
    have "appended 1 m m'" unfolding m' using appended_one by simp
    moreover have "ttl_hours m' = ttl_hours m" unfolding m' by (rule add_interaction_ttl)
    ultimately show ?thesis using Some by auto
  qed
qed

lemma ran_zero:
  "memory p' = memory p \<Longrightarrow> total_queries p' = total_queries p \<Longrightarrow> ran env 0 p p'"
  by (auto simp: ran_def intro: appended_none)

lemma ran_trans:
  assumes "ran env j p p1" and "ran env k p1 p2"
  shows "ran env (j + k) p p2"
proof -
  from assms(1) obtain n1 where n1: "n1 \<le> j" "appended n1 (memory p) (memory p1)"
    by (auto simp: ran_def)
  from assms(2) obtain n2 where n2: "n2 \<le> k" "appended n2 (memory p1) (memory p2)"
    by (auto simp: ran_def)
  have "appended (n1 + n2) (memory p) (memory p2)"
    using appended_trans [OF n2(2) n1(2)] .
  moreover have "n1 + n2 \<le> j + k" using n1(1) n2(1) by simp
  ultimately have some: "\<exists>n\<le>j + k. appended n (memory p) (memory p2)" by blast
  have ttl: "ttl_hours (memory p1) = ttl_hours (memory p)"
    "ttl_hours (memory p2) = ttl_hours (memory p1)"
    using assms by (simp_all add: ran_def)
  have all: "dependable env (ttl_hours (memory p)) \<longrightarrow> appended (j + k) (memory p) (memory p2)"
  proof
    assume d: "dependable env (ttl_hours (memory p))"
    then have "appended j (memory p) (memory p1)" using assms(1) by (simp add: ran_def)
    moreover have "appended k (memory p1) (memory p2)"
      using assms(2) d ttl by (simp add: ran_def)
    ultimately show "appended (j + k) (memory p) (memory p2)"
      using appended_trans by blast
  qed
  from some all ttl assms show ?thesis by (simp add: ran_def)
qed

lemma pipeline_ask_ran:
  assumes "pipeline_ask env q uw p = (res, p')"
  shows "\<not> isl res \<and> ran env 1 p p'"
proof -
  from ask_question_effect [of env q uw 3 p] assms obtain r where
    r: "res = Inr r" "total_queries p' = total_queries p + 1"
       "round_effect q r (memory p) (memory p')"
       "dependable env (ttl_hours (memory p)) \<longrightarrow> error r = None"
    by (auto simp: pipeline_ask_def)
  from round_effect_appended [OF r(3)] r show ?thesis
    by (auto simp: ran_def)
qed

lemma pipeline_now_ran: "pipeline_now env p = (t, p') \<Longrightarrow> ran env 0 p p'"
  by (auto simp: pipeline_now_def split: prod.splits intro!: ran_zero)

lemma parallel_loop_ran:
  assumes "parallel_loop (pipeline_ask env) a qs subs webs locs p = (res, p')"
  shows "\<not> isl res \<and> ran env (length qs) p p'"
  using assms
proof (induction qs arbitrary: subs webs locs p)
  case Nil
  then show ?case by (auto intro: ran_zero)
next
  case (Cons q qs)
  obtain r1 p1 where first: "pipeline_ask env q (needs_web a) p = (r1, p1)"
    by (cases "pipeline_ask env q (needs_web a) p") auto
  from pipeline_ask_ran [OF first] obtain resp where
    resp: "r1 = Inr resp" and ran1: "ran env 1 p p1"
    by (cases r1) auto
  from Cons.prems first resp have rest: "parallel_loop (pipeline_ask env) a qs
      (subs @ [\<lparr>sub_question = q, sub_answer = answer resp,
                 sub_sources = get_or (sources resp) []\<rparr>])
      (webs @ get_or (web_sources resp) [])
      (locs + get_or (local_sources resp) 0) p1 = (res, p')"
    by (simp add: execute_single_search_def)
  from Cons.IH [OF rest] ran_trans [OF ran1] show ?case by auto
qed

lemma sequential_loop_ran:
  assumes "sequential_loop (pipeline_ask env) a d i qs ctx acc p = (res, p')"
  shows "\<not> isl res \<and> ran env (min (length qs) (nat (d - int i))) p p'"
  using assms
proof (induction qs arbitrary: i ctx acc p)
  case Nil
  then show ?case by (auto intro: ran_zero)
next
  case (Cons q qs)
  show ?case
  proof (cases "int i \<ge> d")
    case True
    with Cons.prems show ?thesis by (auto intro: ran_zero)
  next
    case False
    let ?enriched = "if ctx \<noteq> [] then q @ '' (Contexte: '' @ take 200 ctx @ ''...)'' else q"
    obtain r1 p1 where first: "pipeline_ask env ?enriched (needs_web a) p = (r1, p1)"
      by (cases "pipeline_ask env ?enriched (needs_web a) p") auto
    from pipeline_ask_ran [OF first] obtain resp where
      resp: "r1 = Inr resp" and ran1: "ran env 1 p p1"
      by (cases r1) auto
    from Cons.prems False first resp have rest:
      "sequential_loop (pipeline_ask env) a d (i + 1) qs (ctx @ '' '' @ answer resp)
         (acc @ [\<lparr>step = i + 1, step_question = q, enriched_question = ?enriched,
                   step_answer = answer resp, step_sources = get_or (sources resp) []\<rparr>])
         p1 = (res, p')"
      by (simp add: execute_single_search_def Let_def)
    have count: "1 + min (length qs) (nat (d - int (i + 1)))
                   = min (length (q # qs)) (nat (d - int i))"
      using False by auto
    from Cons.IH [OF rest] ran_trans [OF ran1, of "min (length qs) (nat (d - int (i + 1)))" p']
    show ?thesis unfolding count [symmetric] by auto
  qed
qed

lemma execute_strategy_ran:
  assumes "execute_strategy (pipeline_ask env) q d a p = (res, p')"
  shows "\<not> isl res \<and> ran env (rounds_of a d) p p'"
proof -
  consider (par) "search_strategy a = ''parallel''"
    | (seq) "search_strategy a = ''sequential''"
    | (single) "search_strategy a \<noteq> ''parallel''" "search_strategy a \<noteq> ''sequential''"
    by blast
  then show ?thesis
  proof cases
    case par
    obtain lr lp where l: "parallel_loop (pipeline_ask env) a (sub_questions a) [] [] 0 p = (lr, lp)"
      by (cases "parallel_loop (pipeline_ask env) a (sub_questions a) [] [] 0 p") auto
    from parallel_loop_ran [OF l] obtain x where x: "lr = Inr x" by (cases lr) auto
    from assms par l x have "p' = lp" "\<not> isl res"
      by (auto simp: execute_strategy_def execute_parallel_search_def split: prod.splits)
    with parallel_loop_ran [OF l] par show ?thesis by (simp add: rounds_of_def)
  next
    case seq
    obtain lr lp where l: "sequential_loop (pipeline_ask env) a d 0 (sub_questions a) [] [] p = (lr, lp)"
      by (cases "sequential_loop (pipeline_ask env) a d 0 (sub_questions a) [] [] p") auto
    from sequential_loop_ran [OF l] obtain x where x: "lr = Inr x" by (cases lr) auto
    from assms seq l x have "p' = lp" "\<not> isl res"
      by (auto simp: execute_strategy_def execute_sequential_search_def split: prod.splits)
    with sequential_loop_ran [OF l] seq show ?thesis by (simp add: rounds_of_def)
  next
    case single
    with assms have "pipeline_ask env q (needs_web a) p = (res, p')"
      by (simp add: execute_strategy_def execute_single_search_def split: if_splits)
    from pipeline_ask_ran [OF this] single show ?thesis by (simp add: rounds_of_def)
  qed
qed

lemma answer_question_ran:
  "\<exists>resp stats' p'.
     answer_question (pipeline_ask env) (pipeline_now env) True q d stats p
       = (Inr resp, stats', p')
     \<and> ran env (rounds_of (analyze_question q) d) p p'"
proof -
  obtain t0 p0 where n0: "pipeline_now env p = (t0, p0)" by (cases "pipeline_now env p") auto
  obtain res p1 where ex: "execute_strategy (pipeline_ask env) q d (analyze_question q) p0
      = (res, p1)"
    by (cases "execute_strategy (pipeline_ask env) q d (analyze_question q) p0") auto
  from execute_strategy_ran [OF ex] obtain r where r: "res = Inr r"
    and ran1: "ran env (rounds_of (analyze_question q) d) p0 p1"
    by (cases res) auto
  obtain t1 p2 where n1: "pipeline_now env p1 = (t1, p2)" by (cases "pipeline_now env p1") auto
  have "ran env (0 + rounds_of (analyze_question q) d + 0) p p2"
    by (intro ran_trans [OF ran_trans [OF pipeline_now_ran [OF n0] ran1] pipeline_now_ran [OF n1]])
  then have total: "ran env (rounds_of (analyze_question q) d) p p2" by simp
  from n0 ex r n1 have "\<exists>resp stats'.
     answer_question (pipeline_ask env) (pipeline_now env) True q d stats p
       = (Inr resp, stats', p2)"
    by (simp add: answer_question_def answer_question_try_def Let_def)
  with total show ?thesis by blast
qed

text \<open>
  When nothing is purged or dropped (a generator that never raises, no overflow, a clock
  whose readings stay within the TTL of each other and of the stored interactions, and
  room below \<open>max_memory\<close>), each round adds exactly one interaction, under its question.
\<close>

lemma add_interaction_exact:
  assumes room: "int (length (interactions m)) < max_memory m"
    and ok: "\<not> isl (cutoff_before t2 (ttl_hours m))"
    and old: "\<forall>i \<in> set (interactions m). t2 - i_timestamp i < hours_delta (ttl_hours m)"
    and new: "t2 - t1 < hours_delta (ttl_hours m)"
  shows "add_interaction q r t1 t2 m =
           (Inr (), m\<lparr>interactions := interactions m @ [new_interaction q r t1]\<rparr>)"
proof -
  obtain c where c: "cutoff_before t2 (ttl_hours m) = Inr c"
    using ok by (cases "cutoff_before t2 (ttl_hours m)") auto
  have cv: "c = t2 - hours_delta (ttl_hours m)"
    using c by (auto simp: cutoff_before_def timedelta_hours_def datetime_minus_def
        split: sum.splits if_splits)
  have keep: "filter (\<lambda>i. c < i_timestamp i) (interactions m @ [new_interaction q r t1])
                = interactions m @ [new_interaction q r t1]"
    using old new unfolding cv by (auto simp: new_interaction_def filter_id_conv)
  show ?thesis
    using room c keep by (simp add: add_interaction_def Let_def cleanup_expired_def)
qed

lemma recorded_rounds_refl: "recorded_rounds env [] m m"
  by (simp add: recorded_rounds_def)

lemma recorded_rounds_trans:
  "recorded_rounds env xs m m1 \<Longrightarrow> recorded_rounds env ys m1 m2 \<Longrightarrow>
   recorded_rounds env (xs @ ys) m m2"
  unfolding recorded_rounds_def
  by (elim exE conjE, rule_tac x = "news @ newsa" in exI) auto

lemma fresh_recorded:
  assumes "fresh env m" and "recorded_rounds env asked m m'" and "steady env (ttl_hours m)"
  shows "fresh env m'"
proof -
  from assms(2) obtain news where n: "interactions m' = interactions m @ news"
    "\<forall>i \<in> set news. \<exists>w. i_timestamp i = fst (clock env w)" "ttl_hours m' = ttl_hours m"
    by (auto simp: recorded_rounds_def)
  show ?thesis
    unfolding fresh_def n(1) n(3)
  proof (intro ballI allI)
    fix i w assume "i \<in> set (interactions m @ news)"
    then consider "i \<in> set (interactions m)" | "i \<in> set news" by auto
    then show "fst (clock env w) - i_timestamp i < hours_delta (ttl_hours m)"
    proof cases
      case 1
      with assms(1) show ?thesis by (simp add: fresh_def)
    next
      case 2
      with n(2) obtain w' where "i_timestamp i = fst (clock env w')" by blast
      with assms(3) show ?thesis by (simp add: steady_def)
    qed
  qed
qed

lemma finish_question_exact:
  assumes run: "finish_question env q st loc web qs p = (res, p')"
    and dep: "dependable env (ttl_hours (memory p))"
    and std: "steady env (ttl_hours (memory p))"
    and fr: "fresh env (memory p)"
    and room: "int (length (interactions (memory p))) < max_memory (memory p)"
  shows "\<not> isl res \<and> recorded_rounds env [q] (memory p) (memory p')"
proof -
  let ?ctx = "fuse_results (raw_score env (outside p)) loc web"
  obtain g w1 where gen: "generate_response env q ?ctx (outside p) = (g, w1)"
    by (cases "generate_response env q ?ctx (outside p)") auto
  have "\<not> isl g" using dep gen unfolding dependable_def by (metis fst_conv)
  then obtain gg where gg: "g = Inr gg" by (cases g) auto
  obtain t_end w2 where c1: "clock env w1 = (t_end, w2)" by (cases "clock env w1") auto
  obtain t_stamp w3 where c2: "clock env w2 = (t_stamp, w3)" by (cases "clock env w2") auto
  obtain t_clean w4 where c3: "clock env w3 = (t_clean, w4)" by (cases "clock env w3") auto
  let ?r = "full_response gg qs web loc (seconds_between st t_end)"
  have ts: "t_stamp = fst (clock env w2)" and tc: "t_clean = fst (clock env w3)"
    using c2 c3 by simp_all
  have ok: "\<not> isl (cutoff_before t_clean (ttl_hours (memory p)))"
    using dep unfolding dependable_def tc by blast
  have old: "\<forall>i \<in> set (interactions (memory p)).
               t_clean - i_timestamp i < hours_delta (ttl_hours (memory p))"
    using fr unfolding fresh_def tc by blast
  have new: "t_clean - t_stamp < hours_delta (ttl_hours (memory p))"
    using std unfolding steady_def ts tc by blast
  note add = add_interaction_exact [OF room ok old new, of q ?r]
  from run gen gg c1 c2 c3 add have res: "res = Inr ?r"
    and p': "memory p' = (memory p)\<lparr>interactions :=
               interactions (memory p) @ [new_interaction q ?r t_stamp]\<rparr>"
    by (auto simp: finish_question_def Let_def)
  have "recorded_rounds env [q] (memory p) (memory p')"
    unfolding recorded_rounds_def p'
    by (rule exI [of _ "[new_interaction q ?r t_stamp]"])
       (auto simp: new_interaction_def ts)
  with res show ?thesis by simp
qed

lemma ask_question_try_exact:
  assumes run: "ask_question_try env q uw mw st p = (res, p')"
    and dep: "dependable env (ttl_hours (memory p))"
    and std: "steady env (ttl_hours (memory p))"
    and fr: "fresh env (memory p)"
    and room: "int (length (interactions (memory p))) < max_memory (memory p)"
  shows "\<not> isl res \<and> recorded_rounds env [q] (memory p) (memory p')"
proof -
  obtain loc w1 where sl: "search_local env q (outside p) = (loc, w1)"
    by (cases "search_local env q (outside p)") auto
  let ?p1 = "p\<lparr>local_searches := local_searches p + 1, outside := w1\<rparr>"
  have m1: "memory ?p1 = memory p" by simp
  show ?thesis
  proof (cases uw)
    case False
    with run sl have f: "finish_question env q st loc [] [] ?p1 = (res, p')"
      by (simp add: ask_question_try_def Let_def)
    from finish_question_exact [OF f] dep std fr room show ?thesis by simp
  next
    case True
    obtain t w2 where c: "clock env w1 = (t, w2)" by (cases "clock env w1") auto
    let ?p2 = "?p1\<lparr>outside := w2\<rparr>"
    have "\<not> isl (cutoff_before (fst (clock env w1)) 1)"
      using dep unfolding dependable_def by blast
    then obtain recently where rs: "is_recently_searched q 1 t (memory p) = Inr recently"
      using c by (cases "cutoff_before t 1") (auto simp: is_recently_searched_def)
    show ?thesis
    proof (cases recently)
      case True
      with run sl \<open>uw\<close> c rs
      have f: "finish_question env q st loc [] [] (?p2\<lparr>cache_hits := cache_hits ?p2 + 1\<rparr>)
             = (res, p')"
        by (simp add: ask_question_try_def Let_def)
      from finish_question_exact [OF f] dep std fr room show ?thesis by simp
    next
      case False
      obtain web w3 where sw: "search_web_enhanced env q mw w2 = (web, w3)"
        by (cases "search_web_enhanced env q mw w2") auto
      with run sl \<open>uw\<close> c rs False
      have f: "finish_question env q st loc web [q]
              (?p2\<lparr>web_searches := web_searches ?p2 + 1, outside := w3\<rparr>) = (res, p')"
        by (simp add: ask_question_try_def Let_def)
      from finish_question_exact [OF f] dep std fr room show ?thesis by simp
    qed
  qed
qed

lemma ask_question_exact:
  assumes run: "ask_question env q uw mw p = (res, p')"
    and dep: "dependable env (ttl_hours (memory p))"
    and std: "steady env (ttl_hours (memory p))"
    and fr: "fresh env (memory p)"
    and room: "int (length (interactions (memory p))) < max_memory (memory p)"
  shows "recorded_rounds env [q] (memory p) (memory p')"
proof -
  let ?p0 = "p\<lparr>total_queries := total_queries p + 1\<rparr>"
  obtain st w0 where c: "clock env (outside p) = (st, w0)" by (cases "clock env (outside p)") auto
  obtain r1 p1 where tr: "ask_question_try env q uw mw st (?p0\<lparr>outside := w0\<rparr>) = (r1, p1)"
    by (cases "ask_question_try env q uw mw st (?p0\<lparr>outside := w0\<rparr>)") auto
  from ask_question_try_exact [OF tr] dep std fr room
  have ok: "\<not> isl r1" and rec: "recorded_rounds env [q] (memory p) (memory p1)" by simp_all
  from ok obtain r where "r1 = Inr r" by (cases r1) auto
  with run c tr have "p' = p1" by (simp add: ask_question_def Let_def)
  with rec show ?thesis by simp
qed

lemma pipeline_ask_exact:
  assumes "pipeline_ask env q uw p = (res, p')"
    and "dependable env (ttl_hours (memory p))"
    and "steady env (ttl_hours (memory p))"
    and "fresh env (memory p)"
    and "int (length (interactions (memory p))) < max_memory (memory p)"
  shows "recorded_rounds env [q] (memory p) (memory p')"
  using ask_question_exact [OF assms(1) [unfolded pipeline_ask_def] assms(2-5)] .

lemma recorded_rounds_params:
  "recorded_rounds env asked m m' \<Longrightarrow>
     ttl_hours m' = ttl_hours m \<and> max_memory m' = max_memory m
     \<and> length (interactions m') = length (interactions m) + length asked"
  by (auto simp: recorded_rounds_def)

lemma parallel_loop_exact:
  assumes "parallel_loop (pipeline_ask env) a qs subs webs locs p = (res, p')"
    and "dependable env (ttl_hours (memory p))"
    and "steady env (ttl_hours (memory p))"
    and "fresh env (memory p)"
    and "int (length (interactions (memory p))) + int (length qs) \<le> max_memory (memory p)"
  shows "recorded_rounds env qs (memory p) (memory p')"
  using assms
proof (induction qs arbitrary: subs webs locs p)
  case Nil
  then show ?case by (simp add: recorded_rounds_refl)
next
  case (Cons q qs)
  obtain r1 p1 where first: "pipeline_ask env q (needs_web a) p = (r1, p1)"
    by (cases "pipeline_ask env q (needs_web a) p") auto
  have room1: "int (length (interactions (memory p))) < max_memory (memory p)"
    using Cons.prems(5) by simp
  have rec1: "recorded_rounds env [q] (memory p) (memory p1)"
    by (rule pipeline_ask_exact [OF first Cons.prems(2) Cons.prems(3) Cons.prems(4) room1])
  note par = recorded_rounds_params [OF rec1]
  from pipeline_ask_ran [OF first] obtain resp where resp: "r1 = Inr resp"
    by (cases r1) auto
  from Cons.prems(1) first resp have rest: "parallel_loop (pipeline_ask env) a qs
      (subs @ [\<lparr>sub_question = q, sub_answer = answer resp,
                 sub_sources = get_or (sources resp) []\<rparr>])
      (webs @ get_or (web_sources resp) [])
      (locs + get_or (local_sources resp) 0) p1 = (res, p')"
    by (simp add: execute_single_search_def)
  have dep1: "dependable env (ttl_hours (memory p1))"
    and std1: "steady env (ttl_hours (memory p1))"
    using Cons.prems(2,3) par by simp_all
  have fr1: "fresh env (memory p1)"
    by (rule fresh_recorded [OF Cons.prems(4) rec1 Cons.prems(3)])
  have room: "int (length (interactions (memory p1))) + int (length qs)
                \<le> max_memory (memory p1)"
    using Cons.prems(5) par by simp
  from recorded_rounds_trans [OF rec1 Cons.IH [OF rest dep1 std1 fr1 room]]
  show ?case by simp
qed

lemma sequential_loop_exact:
  assumes "sequential_loop (pipeline_ask env) a d i qs ctx acc p = (res, p')"
    and "dependable env (ttl_hours (memory p))"
    and "steady env (ttl_hours (memory p))"
    and "fresh env (memory p)"
    and "int (length (interactions (memory p))) + int (min (length qs) (nat (d - int i)))
           \<le> max_memory (memory p)"
  shows "\<exists>asked. length asked = min (length qs) (nat (d - int i))
           \<and> recorded_rounds env asked (memory p) (memory p')"
  using assms
proof (induction qs arbitrary: i ctx acc p)
  case Nil
  then show ?case by (auto intro: recorded_rounds_refl)
next
  case (Cons q qs)
  show ?case
  proof (cases "int i \<ge> d")
    case True
    with Cons.prems(1) have "p' = p" by simp
    with True show ?thesis by (auto intro: recorded_rounds_refl)
  next
    case False
    let ?enriched = "if ctx \<noteq> [] then q @ '' (Contexte: '' @ take 200 ctx @ ''...)'' else q"
    have count: "min (length (q # qs)) (nat (d - int i))
                   = 1 + min (length qs) (nat (d - int (i + 1)))"
      using False by auto
    obtain r1 p1 where first: "pipeline_ask env ?enriched (needs_web a) p = (r1, p1)"
      by (cases "pipeline_ask env ?enriched (needs_web a) p") auto
    have room1: "int (length (interactions (memory p))) < max_memory (memory p)"
      using Cons.prems(5) unfolding count by simp
    have rec1: "recorded_rounds env [?enriched] (memory p) (memory p1)"
      by (rule pipeline_ask_exact [OF first Cons.prems(2) Cons.prems(3) Cons.prems(4) room1])
    note par = recorded_rounds_params [OF rec1]
    from pipeline_ask_ran [OF first] obtain resp where resp: "r1 = Inr resp"
      by (cases r1) auto
    from Cons.prems(1) False first resp have rest:
      "sequential_loop (pipeline_ask env) a d (i + 1) qs (ctx @ '' '' @ answer resp)
         (acc @ [\<lparr>step = i + 1, step_question = q, enriched_question = ?enriched,
                   step_answer = answer resp, step_sources = get_or (sources resp) []\<rparr>])
         p1 = (res, p')"
      by (simp add: execute_single_search_def Let_def)
    have dep1: "dependable env (ttl_hours (memory p1))"
      and std1: "steady env (ttl_hours (memory p1))"
      using Cons.prems(2,3) par by simp_all
    have fr1: "fresh env (memory p1)"
      by (rule fresh_recorded [OF Cons.prems(4) rec1 Cons.prems(3)])
    have room: "int (length (interactions (memory p1)))
                  + int (min (length qs) (nat (d - int (i + 1)))) \<le> max_memory (memory p1)"
      using Cons.prems(5) par unfolding count by simp
    from Cons.IH [OF rest dep1 std1 fr1 room] obtain asked where
      asked: "length asked = min (length qs) (nat (d - int (i + 1)))"
        "recorded_rounds env asked (memory p1) (memory p')"
      by blast
    have "recorded_rounds env ([?enriched] @ asked) (memory p) (memory p')"
      by (rule recorded_rounds_trans [OF rec1 asked(2)])
    moreover have "length ([?enriched] @ asked) = min (length (q # qs)) (nat (d - int i))"
      unfolding count using asked(1) by simp
    ultimately show ?thesis by blast
  qed
qed

lemma execute_strategy_exact:
  assumes run: "execute_strategy (pipeline_ask env) q d a p = (res, p')"
    and dep: "dependable env (ttl_hours (memory p))"
    and std: "steady env (ttl_hours (memory p))"
    and fr: "fresh env (memory p)"
    and room: "int (length (interactions (memory p))) + int (rounds_of a d)
                 \<le> max_memory (memory p)"
  shows "\<exists>asked. length asked = rounds_of a d
           \<and> recorded_rounds env asked (memory p) (memory p')
           \<and> (search_strategy a = ''parallel'' \<longrightarrow> asked = sub_questions a)
           \<and> (search_strategy a \<noteq> ''parallel'' \<and> search_strategy a \<noteq> ''sequential''
                \<longrightarrow> asked = [q])"
proof -
  consider (par) "search_strategy a = ''parallel''"
    | (seq) "search_strategy a = ''sequential''"
    | (single) "search_strategy a \<noteq> ''parallel''" "search_strategy a \<noteq> ''sequential''"
    by blast
  then show ?thesis
  proof cases
    case par
    obtain lr lp where l: "parallel_loop (pipeline_ask env) a (sub_questions a) [] [] 0 p = (lr, lp)"
      by (cases "parallel_loop (pipeline_ask env) a (sub_questions a) [] [] 0 p") auto
    from parallel_loop_ran [OF l] obtain x where x: "lr = Inr x" by (cases lr) auto
    from run par l x have p': "p' = lp"
      by (auto simp: execute_strategy_def execute_parallel_search_def split: prod.splits)
    have "recorded_rounds env (sub_questions a) (memory p) (memory lp)"
      using parallel_loop_exact [OF l dep std fr] room par by (simp add: rounds_of_def)
    with par p' show ?thesis by (auto simp: rounds_of_def)
  next
    case seq
    obtain lr lp where l: "sequential_loop (pipeline_ask env) a d 0 (sub_questions a) [] [] p = (lr, lp)"
      by (cases "sequential_loop (pipeline_ask env) a d 0 (sub_questions a) [] [] p") auto
    from sequential_loop_ran [OF l] obtain x where x: "lr = Inr x" by (cases lr) auto
    from run seq l x have p': "p' = lp"
      by (auto simp: execute_strategy_def execute_sequential_search_def split: prod.splits)
    from sequential_loop_exact [OF l dep std fr] room seq
    obtain asked where "length asked = min (length (sub_questions a)) (nat d)"
      "recorded_rounds env asked (memory p) (memory lp)"
      by (auto simp: rounds_of_def)
    with seq p' show ?thesis by (auto simp: rounds_of_def)
  next
    case single
    with run have one: "pipeline_ask env q (needs_web a) p = (res, p')"
      by (simp add: execute_strategy_def execute_single_search_def split: if_splits)
    have room1: "int (length (interactions (memory p))) < max_memory (memory p)"
      using room single by (simp add: rounds_of_def)
    from pipeline_ask_exact [OF one dep std fr room1] single show ?thesis
      by (auto simp: rounds_of_def)
  qed
qed

lemma pipeline_now_memory: "memory (snd (pipeline_now env p)) = memory p"
  by (simp add: pipeline_now_def split: prod.splits)

lemma answer_question_exact:
  assumes dep: "dependable env (ttl_hours (memory p))"
    and std: "steady env (ttl_hours (memory p))"
    and fr: "fresh env (memory p)"
    and room: "int (length (interactions (memory p)))
                 + int (rounds_of (analyze_question q) d) \<le> max_memory (memory p)"
  shows "\<exists>asked. length asked = rounds_of (analyze_question q) d
     \<and> recorded_rounds env asked (memory p)
          (memory (snd (snd (answer_question (pipeline_ask env) (pipeline_now env) True q d
                               stats p))))
     \<and> (search_strategy (analyze_question q) = ''parallel''
          \<longrightarrow> asked = sub_questions (analyze_question q))
     \<and> (search_strategy (analyze_question q) \<noteq> ''parallel''
          \<and> search_strategy (analyze_question q) \<noteq> ''sequential'' \<longrightarrow> asked = [q])"
proof -
  obtain t0 p0 where n0: "pipeline_now env p = (t0, p0)" by (cases "pipeline_now env p") auto
  have m0: "memory p0 = memory p" using pipeline_now_memory [of env p] n0 by simp
  obtain res p1 where ex: "execute_strategy (pipeline_ask env) q d (analyze_question q) p0
      = (res, p1)"
    by (cases "execute_strategy (pipeline_ask env) q d (analyze_question q) p0") auto
  from execute_strategy_ran [OF ex] obtain r where r: "res = Inr r" by (cases res) auto
  obtain t1 p2 where n1: "pipeline_now env p1 = (t1, p2)" by (cases "pipeline_now env p1") auto
  have m2: "memory p2 = memory p1" using pipeline_now_memory [of env p1] n1 by simp
  from n0 ex r n1 have "snd (snd (answer_question (pipeline_ask env) (pipeline_now env) True
        q d stats p)) = p2"
    by (simp add: answer_question_def answer_question_try_def Let_def)
  with execute_strategy_exact [OF ex] dep std fr room m0 m2 show ?thesis by simp
qed

lemma two_parts_run:
  "map i_question (interactions (memory (snd (snd (answer_question (pipeline_ask env0)
      (pipeline_now env0) True question_two_parts 3 stats0 pipeline0)))))
   = [''quel est le niveau du bitcoin?'',
      ''quel est le niveau du gaz sur le site de la banque de paris ce matin?'']"
  unfolding question_two_parts_def by code_simp

text \<open>
  C10, as stated: one request under the \<open>parallel\<close> strategy, with two sub-questions,
  on the freshly constructed pipeline leaves two interactions in the memory, one for
  each sub-question.
\<close>

theorem one_interaction_per_request_counterexample:
  "search_strategy (analyze_question question_two_parts) = ''parallel''
   \<and> interactions (memory pipeline0) = []
   \<and> map i_question (interactions (memory (snd (snd (answer_question (pipeline_ask env0)
        (pipeline_now env0) True question_two_parts 3 stats0 pipeline0)))))
      = [''quel est le niveau du bitcoin?'',
         ''quel est le niveau du gaz sur le site de la banque de paris ce matin?'']"
proof -
  have "search_strategy (analyze_question question_two_parts) = ''parallel''"
    unfolding question_two_parts_def by code_simp
  moreover have "interactions (memory pipeline0) = []"
    by (simp add: pipeline0_def init_memory_def)
  ultimately show ?thesis using two_parts_run by simp
qed

text \<open>
  C10 (amended): the agent never writes to the memory itself; the pipeline's
  \<open>ask_question\<close> does, once for each call that completes without an exception, under
  the question of that call.  A request calls \<open>ask_question\<close> once under the \<open>single\<close>
  strategy, once per sub-question under \<open>parallel\<close> and once per sub-question up to
  \<open>max_depth\<close> under \<open>sequential\<close> (\<open>total_queries\<close> counts these rounds); the memory
  after the request is the memory before it after at most that many calls of
  \<open>add_interaction\<close>, and after exactly that many when the generator never raises and
  no cutoff overflows.  When moreover nothing expires during the request and the memory
  has room for the rounds, the memory after the request is the memory before it followed
  by exactly one new interaction per round: under the question itself for \<open>single\<close>,
  under the sub-questions in order for \<open>parallel\<close>.
\<close>

theorem interactions_follow_rounds:
  "(\<exists>r p'. ask_question env q use_web max_web_results p = (Inr r, p')
        \<and> total_queries p' = total_queries p + 1
        \<and> round_effect q r (memory p) (memory p')
        \<and> (dependable env (ttl_hours (memory p)) \<and> steady env (ttl_hours (memory p))
             \<and> fresh env (memory p)
             \<and> int (length (interactions (memory p))) < max_memory (memory p)
             \<longrightarrow> error r = None \<and> recorded_rounds env [q] (memory p) (memory p')))
   \<and> (\<exists>resp stats' p'.
        answer_question (pipeline_ask env) (pipeline_now env) True question max_depth stats p
          = (Inr resp, stats', p')
        \<and> total_queries p' = total_queries p + rounds_of (analyze_question question) max_depth
        \<and> (\<exists>n \<le> rounds_of (analyze_question question) max_depth.
              appended n (memory p) (memory p'))
        \<and> (dependable env (ttl_hours (memory p)) \<longrightarrow>
              appended (rounds_of (analyze_question question) max_depth)
                (memory p) (memory p'))
        \<and> (dependable env (ttl_hours (memory p)) \<and> steady env (ttl_hours (memory p))
             \<and> fresh env (memory p)
             \<and> int (length (interactions (memory p)))
                 + int (rounds_of (analyze_question question) max_depth)
                 \<le> max_memory (memory p)
             \<longrightarrow> (\<exists>asked. length asked = rounds_of (analyze_question question) max_depth
                    \<and> recorded_rounds env asked (memory p) (memory p')
                    \<and> (search_strategy (analyze_question question) = ''parallel''
                         \<longrightarrow> asked = sub_questions (analyze_question question))
                    \<and> (search_strategy (analyze_question question) \<noteq> ''parallel''
                         \<and> search_strategy (analyze_question question) \<noteq> ''sequential''
                         \<longrightarrow> asked = [question]))))"
proof
  from ask_question_effect [of env q use_web max_web_results p]
  obtain r p' where run: "ask_question env q use_web max_web_results p = (Inr r, p')"
    and eff: "total_queries p' = total_queries p + 1"
      "round_effect q r (memory p) (memory p')"
      "dependable env (ttl_hours (memory p)) \<longrightarrow> error r = None"
    by blast
  from ask_question_exact [OF run] eff
  show "\<exists>r p'. ask_question env q use_web max_web_results p = (Inr r, p')
        \<and> total_queries p' = total_queries p + 1
        \<and> round_effect q r (memory p) (memory p')
        \<and> (dependable env (ttl_hours (memory p)) \<and> steady env (ttl_hours (memory p))
             \<and> fresh env (memory p)
             \<and> int (length (interactions (memory p))) < max_memory (memory p)
             \<longrightarrow> error r = None \<and> recorded_rounds env [q] (memory p) (memory p'))"
    using run by blast
next
  from answer_question_ran [of env question max_depth stats p]
  obtain resp stats' p' where
    run: "answer_question (pipeline_ask env) (pipeline_now env) True question max_depth stats p
          = (Inr resp, stats', p')"
    and r: "ran env (rounds_of (analyze_question question) max_depth) p p'"
    by blast
  have p': "snd (snd (answer_question (pipeline_ask env) (pipeline_now env) True question
              max_depth stats p)) = p'"
    using run by simp
  note exact = answer_question_exact [of env p question max_depth stats, unfolded p']
  from r exact
  show "\<exists>resp stats' p'.
        answer_question (pipeline_ask env) (pipeline_now env) True question max_depth stats p
          = (Inr resp, stats', p')
        \<and> total_queries p' = total_queries p + rounds_of (analyze_question question) max_depth
        \<and> (\<exists>n \<le> rounds_of (analyze_question question) max_depth.
              appended n (memory p) (memory p'))
        \<and> (dependable env (ttl_hours (memory p)) \<longrightarrow>
              appended (rounds_of (analyze_question question) max_depth)
                (memory p) (memory p'))
        \<and> (dependable env (ttl_hours (memory p)) \<and> steady env (ttl_hours (memory p))
             \<and> fresh env (memory p)
             \<and> int (length (interactions (memory p)))
                 + int (rounds_of (analyze_question question) max_depth)
                 \<le> max_memory (memory p)
             \<longrightarrow> (\<exists>asked. length asked = rounds_of (analyze_question question) max_depth
                    \<and> recorded_rounds env asked (memory p) (memory p')
                    \<and> (search_strategy (analyze_question question) = ''parallel''
                         \<longrightarrow> asked = sub_questions (analyze_question question))
                    \<and> (search_strategy (analyze_question question) \<noteq> ''parallel''
                         \<and> search_strategy (analyze_question question) \<noteq> ''sequential''
                         \<longrightarrow> asked = [question])))"
    unfolding ran_def using run by blast
qed

lemma dependable_env0: "dependable env0 24"
  by (simp add: dependable_def env0_def tick_def cutoff_before_def timedelta_hours_def
      datetime_minus_def hours_delta_def datetime_min_def datetime_max_def)

lemma steady_env0: "steady env0 24"
  by (simp add: steady_def env0_def tick_def hours_delta_def)

lemma fresh_pipeline0: "fresh env0 (memory pipeline0)"
  by (simp add: fresh_def pipeline0_def init_memory_def)

lemma two_parts_strategy:
  "search_strategy (analyze_question question_two_parts) = ''parallel''"
  unfolding question_two_parts_def by code_simp

lemma two_parts_sub_questions:
  "sub_questions (analyze_question question_two_parts)
   = [''quel est le niveau du bitcoin?'',
      ''quel est le niveau du gaz sur le site de la banque de paris ce matin?'']"
  unfolding question_two_parts_def by code_simp

lemma two_parts_rounds: "rounds_of (analyze_question question_two_parts) 3 = 2"
  by (simp add: rounds_of_def two_parts_strategy two_parts_sub_questions)

theorem interactions_follow_rounds_witness:
  "dependable env0 24 \<and> steady env0 24 \<and> fresh env0 (memory pipeline0)
   \<and> interactions (memory pipeline0) = [] \<and> max_memory (memory pipeline0) = 10
   \<and> search_strategy (analyze_question question_two_parts) = ''parallel''
   \<and> rounds_of (analyze_question question_two_parts) 3 = 2
   \<and> total_queries (snd (snd (answer_question (pipeline_ask env0) (pipeline_now env0) True
        question_two_parts 3 stats0 pipeline0))) = 2
   \<and> appended 2 (memory pipeline0)
        (memory (snd (snd (answer_question (pipeline_ask env0) (pipeline_now env0) True
           question_two_parts 3 stats0 pipeline0))))
   \<and> recorded_rounds env0
        [''quel est le niveau du bitcoin?'',
         ''quel est le niveau du gaz sur le site de la banque de paris ce matin?'']
        (memory pipeline0)
        (memory (snd (snd (answer_question (pipeline_ask env0) (pipeline_now env0) True
           question_two_parts 3 stats0 pipeline0))))"
proof -
  have init: "ttl_hours (memory pipeline0) = 24" "total_queries pipeline0 = 0"
    "interactions (memory pipeline0) = []" "max_memory (memory pipeline0) = 10"
    by (simp_all add: pipeline0_def init_memory_def)
  from interactions_follow_rounds [of env0 "''q''" True 3 pipeline0 question_two_parts 3 stats0]
  obtain resp stats' p' where
    eq: "answer_question (pipeline_ask env0) (pipeline_now env0) True question_two_parts 3
           stats0 pipeline0 = (Inr resp, stats', p')"
    and tq: "total_queries p' = total_queries pipeline0
               + rounds_of (analyze_question question_two_parts) 3"
    and ap: "dependable env0 (ttl_hours (memory pipeline0)) \<longrightarrow>
              appended (rounds_of (analyze_question question_two_parts) 3)
                (memory pipeline0) (memory p')"
    and ex: "dependable env0 (ttl_hours (memory pipeline0))
             \<and> steady env0 (ttl_hours (memory pipeline0))
             \<and> fresh env0 (memory pipeline0)
             \<and> int (length (interactions (memory pipeline0)))
                 + int (rounds_of (analyze_question question_two_parts) 3)
                 \<le> max_memory (memory pipeline0)
             \<longrightarrow> (\<exists>asked. length asked = rounds_of (analyze_question question_two_parts) 3
                    \<and> recorded_rounds env0 asked (memory pipeline0) (memory p')
                    \<and> (search_strategy (analyze_question question_two_parts) = ''parallel''
                         \<longrightarrow> asked = sub_questions (analyze_question question_two_parts))
                    \<and> (search_strategy (analyze_question question_two_parts) \<noteq> ''parallel''
                         \<and> search_strategy (analyze_question question_two_parts)
                              \<noteq> ''sequential''
                         \<longrightarrow> asked = [question_two_parts]))"
    by blast
  have p': "snd (snd (answer_question (pipeline_ask env0) (pipeline_now env0) True
              question_two_parts 3 stats0 pipeline0)) = p'"
    using eq by simp
  from ex have "recorded_rounds env0 (sub_questions (analyze_question question_two_parts))
      (memory pipeline0) (memory p')"
    unfolding init two_parts_rounds
    using dependable_env0 steady_env0 fresh_pipeline0 two_parts_strategy by auto
  with tq ap show ?thesis
    unfolding p' init two_parts_rounds two_parts_sub_questions
    using dependable_env0 steady_env0 fresh_pipeline0 two_parts_strategy by simp
qed

end
